theory Spec2Isabelle
  imports Complex_Main
begin

section \<open>The relaxation program as HOL functions\<close>

text \<open>
  The program is \<^verbatim>\<open>relaxation_technique_sequential.c\<close>. Its globals are the fields of
  the record \<open>globals\<close>; every C function is a HOL function of the same name that takes
  the globals it reads and returns the ones it writes.

  \<^item> A C \<^verbatim>\<open>int\<close> is a HOL \<open>int\<close>. The first product the program computes is
    \<open>matrix_size * matrix_size\<close>, in \<^verbatim>\<open>makeMatrix\<close>: when it does not fit a C int of 32 bits
    (signed overflow is undefined in C, and no grid is created) \<^verbatim>\<open>makeMatrix\<close> ends with
    the error \<open>IntegerOverflow\<close>. For a size from 0 on whose square fits, the products and sums
    the program computes later fit as well. \<^verbatim>\<open>thread_count\<close> is a count, a \<open>nat\<close>. C's
    \<^verbatim>\<open>/\<close> and \<^verbatim>\<open>%\<close> truncate towards zero: \<open>c_div\<close> and \<open>c_mod\<close>.
  \<^item> A C \<^verbatim>\<open>double\<close> is a HOL \<open>real\<close>: rounding is not modelled.
  \<^item> A \<^verbatim>\<open>malloc\<close>ed array of doubles is a \<open>double_array\<close>: the number of doubles that was
    requested, and the contents by slot. \<^verbatim>\<open>malloc\<close> does not initialise memory: the
    contents of a fresh array are a parameter of the function that allocates it. For
    the grid the parameter is an option: \<open>None\<close> when \<^verbatim>\<open>malloc\<close> returns \<^verbatim>\<open>NULL\<close>; a store
    or a read through \<^verbatim>\<open>NULL\<close> ends the run with the error \<open>NullPointer\<close>.
  \<^item> An access to a slot outside what was requested is undefined in C. The model carries
    it out on the slot function (as if the bytes around an array belonged to no other
    object) and records it in the ghost field \<open>faults\<close>, so that it can be observed.
    With the one block of \<^verbatim>\<open>main\<close> the only such access is the write of the last slot of
    the scratch buffer, for the last index of the range, which is on the right column:
    the slot is written and never read.
  \<^item> An entry of the \<^verbatim>\<open>blocks\<close> array that was allocated and never written is \<open>None\<close>.
  \<^item> An integer division by zero, the conversion of an infinite or undefined double to
    \<^verbatim>\<open>int\<close> (in \<^verbatim>\<open>makeBlocks\<close> when \<^verbatim>\<open>thread_count\<close> is 0) and a read of a never written
    block end the run with an \<open>error\<close>: C leaves them undefined.
  \<^item> \<^verbatim>\<open>while (1)\<close> runs on fuel: \<open>None\<close> when the fuel does not suffice.
  Timing and printing are left out.
\<close>

subsection \<open>C arithmetic\<close>

definition c_div :: "int \<Rightarrow> int \<Rightarrow> int" where
  "c_div a b = sgn a * sgn b * (\<bar>a\<bar> div \<bar>b\<bar>)"

definition c_mod :: "int \<Rightarrow> int \<Rightarrow> int" where
  "c_mod a b = a - b * c_div a b"

text \<open>The largest value of a C \<^verbatim>\<open>int\<close> of 32 bits.\<close>

definition INT_MAX :: int where
  "INT_MAX = 2147483647"

text \<open>\<^verbatim>\<open>pow(x, n)\<close> for an integer exponent.\<close>

definition pow :: "real \<Rightarrow> int \<Rightarrow> real" where
  "pow x n = (if 0 \<le> n then x ^ nat n else 1 / x ^ nat (- n))"

subsection \<open>Memory\<close>

record double_array =
  allocated :: int
  cell :: "int \<Rightarrow> real"

datatype fault =
  MatrixOutOfBounds int
  | ScratchOutOfBounds int int

datatype error =
  TooFewArguments
  | IntegerOverflow
  | NullPointer
  | UndefinedConversion
  | DivisionByZero
  | UninitialisedBlock nat

definition outside :: "double_array \<Rightarrow> int \<Rightarrow> bool" where
  "outside a i \<longleftrightarrow> i < 0 \<or> allocated a \<le> i"

definition store :: "double_array \<Rightarrow> int \<Rightarrow> real \<Rightarrow> double_array" where
  "store a i v = a\<lparr>cell := (cell a)(i := v)\<rparr>"

text \<open>Modelled from the spec: the struct \<^verbatim>\<open>BLOCK\<close> of the header
  \<^verbatim>\<open>relaxation_technique.h\<close>, which is not among the sources. A block is a range of
  linear grid indexes, given by its first and its last index, and a scratch buffer of
  doubles; the names of the fields are the ones the program uses.\<close>

record BLOCK =
  start_index :: int
  end_index :: int
  new_values :: double_array

record globals =
  thread_count :: nat
  decimal_precision :: int
  decimal_value :: real
  value_change_flag :: int
  matrix_size :: int
  matrix :: double_array
  blocks :: "BLOCK option list"
  faults :: "fault list"

definition matrix_fault :: "double_array \<Rightarrow> int \<Rightarrow> fault list" where
  "matrix_fault m i = (if outside m i then [MatrixOutOfBounds i] else [])"

definition scratch_fault :: "BLOCK \<Rightarrow> int \<Rightarrow> fault list" where
  "scratch_fault b i =
     (if outside (new_values b) i then [ScratchOutOfBounds (start_index b) i] else [])"

subsection \<open>makeMatrix\<close>

text \<open>The two nested \<^verbatim>\<open>for\<close> loops over \<open>i\<close> and \<open>j\<close>, on memory that holds \<open>junk\<close>: the
  inner loop for the row \<open>i\<close>, and the array when both loops have ended.\<close>

definition makeMatrix_row :: "int \<Rightarrow> int \<Rightarrow> (int \<Rightarrow> real) \<Rightarrow> (int \<Rightarrow> real)" where
  "makeMatrix_row n i =
     fold (\<lambda>j m. if i = 0 \<or> j = 0 then m(i * n + j := 1) else m(i * n + j := 0)) [0..n - 1]"

definition makeMatrix_loops :: "int \<Rightarrow> (int \<Rightarrow> real) \<Rightarrow> double_array" where
  "makeMatrix_loops n junk =
     \<lparr>allocated = n * n, cell = fold (makeMatrix_row n) [0..n - 1] junk\<rparr>"

text \<open>
  \<^verbatim>\<open>makeMatrix\<close>. \<open>mem\<close> is what \<^verbatim>\<open>malloc\<close> returns: \<open>None\<close> for \<^verbatim>\<open>NULL\<close>, \<open>Some junk\<close> for
  memory that holds \<open>junk\<close>. The product \<^verbatim>\<open>matrix_size*matrix_size\<close> is computed on C ints
  before it is converted for \<^verbatim>\<open>malloc\<close>. With \<^verbatim>\<open>NULL\<close> and a positive size the first store
  of the loops goes through \<^verbatim>\<open>NULL\<close>; with a size of 0 or less the loops store nothing and
  the function returns \<^verbatim>\<open>NULL\<close>, the result \<open>None\<close>.
\<close>

definition makeMatrix :: "int \<Rightarrow> (int \<Rightarrow> real) option \<Rightarrow> error + double_array option" where
  "makeMatrix n mem =
     (if INT_MAX < n * n then Inl IntegerOverflow
      else case mem of
             None \<Rightarrow> if 0 < n then Inl NullPointer else Inr None
           | Some junk \<Rightarrow> Inr (Some (makeMatrix_loops n junk)))"

subsection \<open>makeBlocks\<close>

definition new_block :: "int \<Rightarrow> int \<Rightarrow> (int \<Rightarrow> real) \<Rightarrow> BLOCK" where
  "new_block s e junk =
     \<lparr>start_index = s, end_index = e, new_values = \<lparr>allocated = e - s, cell = junk\<rparr>\<rparr>"

definition makeBlocks ::
  "int \<Rightarrow> nat \<Rightarrow> (nat \<Rightarrow> int \<Rightarrow> real) \<Rightarrow> error + BLOCK option list" where
  "makeBlocks n t junk =
     (let mutatable_indexes_count = n * n - n * 2 in
      if t = 0 then Inl UndefinedConversion
      else
        let equal_block_size = \<lceil>real_of_int mutatable_indexes_count / real t\<rceil> in
        if equal_block_size = 0 then Inl DivisionByZero
        else
          let last_block_size = c_mod mutatable_indexes_count equal_block_size;
              equal_block_count =
                c_div (mutatable_indexes_count - last_block_size) equal_block_size;
              blocks0 = replicate t None;
              blocks1 =
                fold (\<lambda>i bs. bs[nat i := Some (new_block (n + equal_block_size * i)
                                  (n + equal_block_size * (i + 1) - 1) (junk (nat i)))])
                  [0..equal_block_count - 1] blocks0
          in Inr (if last_block_size \<noteq> 0
                  then blocks1[t - 1 := Some (new_block
                         (n + mutatable_indexes_count - last_block_size)
                         (n * n - n - 1) (junk (t - 1)))]
                  else blocks1))"

subsection \<open>getSuroundingAverage\<close>

text \<open>The average and the reads that fall outside the grid.\<close>

definition getSuroundingAverage :: "double_array \<Rightarrow> int \<Rightarrow> int \<Rightarrow> real \<times> fault list" where
  "getSuroundingAverage m n index =
     (let top_value = cell m (index - n);
          right_value = cell m (index + 1);
          bottom_value = cell m (index + n);
          left_value = cell m (index - 1)
      in ((top_value + right_value + bottom_value + left_value) / 4,
          matrix_fault m (index - n) @ matrix_fault m (index + 1)
            @ matrix_fault m (index + n) @ matrix_fault m (index - 1)))"

subsection \<open>processBlock\<close>

text \<open>One turn of the loop over \<open>m_i\<close>.\<close>

definition processBlock_body :: "int \<Rightarrow> BLOCK \<times> globals \<Rightarrow> BLOCK \<times> globals" where
  "processBlock_body m_i = (\<lambda>(block, g).
     let b_i = m_i - start_index block in
     if c_mod m_i (matrix_size g) \<noteq> 0 \<and> c_mod (m_i + 1) (matrix_size g) \<noteq> 0 then
       let (new_value, fs) = getSuroundingAverage (matrix g) (matrix_size g) m_i;
           diff = new_value - cell (new_values block) b_i;
           g1 = g\<lparr>faults := faults g @ fs @ scratch_fault block b_i\<rparr>;
           g2 = (if diff > decimal_value g1 then g1\<lparr>value_change_flag := 1\<rparr> else g1)
       in (block\<lparr>new_values := store (new_values block) b_i new_value\<rparr>, g2)
     else
       (block\<lparr>new_values := store (new_values block) b_i (cell (matrix g) m_i)\<rparr>,
        g\<lparr>faults := faults g @ matrix_fault (matrix g) m_i @ scratch_fault block b_i\<rparr>))"

definition processBlock :: "BLOCK \<Rightarrow> globals \<Rightarrow> error + BLOCK \<times> globals" where
  "processBlock block g =
     (if matrix_size g = 0 \<and> start_index block \<le> end_index block then Inl DivisionByZero
      else Inr (fold processBlock_body [start_index block..end_index block] (block, g)))"

subsection \<open>updateMatrix\<close>

definition updateMatrix_body :: "BLOCK \<Rightarrow> int \<Rightarrow> globals \<Rightarrow> globals" where
  "updateMatrix_body block m_i g =
     (let b_i = m_i - start_index block in
      if c_mod m_i (matrix_size g) \<noteq> 0 \<and> c_mod (m_i + 1) (matrix_size g) \<noteq> 0 then
        g\<lparr>matrix := store (matrix g) m_i (cell (new_values block) b_i),
          faults := faults g @ scratch_fault block b_i @ matrix_fault (matrix g) m_i\<rparr>
      else g)"

fun updateMatrix_loop :: "nat \<Rightarrow> BLOCK option list \<Rightarrow> globals \<Rightarrow> error + globals" where
  "updateMatrix_loop i [] g = Inr g"
| "updateMatrix_loop i (None # bs) g = Inl (UninitialisedBlock i)"
| "updateMatrix_loop i (Some block # bs) g =
     (if matrix_size g = 0 \<and> start_index block \<le> end_index block then Inl DivisionByZero
      else updateMatrix_loop (Suc i) bs
             (fold (updateMatrix_body block) [start_index block..end_index block] g))"

definition updateMatrix :: "globals \<Rightarrow> error + globals" where
  "updateMatrix g = updateMatrix_loop 0 (take (thread_count g) (blocks g)) g"

subsection \<open>main\<close>

text \<open>The \<^verbatim>\<open>for\<close> loop of \<^verbatim>\<open>main\<close> that calls \<^verbatim>\<open>processBlock(&blocks[i])\<close> for every \<open>i\<close>.\<close>

fun processBlocks_loop ::
  "nat \<Rightarrow> BLOCK option list \<Rightarrow> globals \<Rightarrow> error + BLOCK option list \<times> globals" where
  "processBlocks_loop i [] g = Inr ([], g)"
| "processBlocks_loop i (None # bs) g = Inl (UninitialisedBlock i)"
| "processBlocks_loop i (Some block # bs) g =
     (case processBlock block g of
        Inl e \<Rightarrow> Inl e
      | Inr (block', g') \<Rightarrow>
          (case processBlocks_loop (Suc i) bs g' of
             Inl e \<Rightarrow> Inl e
           | Inr (bs', g'') \<Rightarrow> Inr (Some block' # bs', g'')))"

definition processBlocks :: "globals \<Rightarrow> error + globals" where
  "processBlocks g =
     (case processBlocks_loop 0 (take (thread_count g) (blocks g)) g of
        Inl e \<Rightarrow> Inl e
      | Inr (bs', g') \<Rightarrow> Inr (g'\<lparr>blocks := bs' @ drop (thread_count g) (blocks g)\<rparr>))"

text \<open>One turn of \<^verbatim>\<open>while (1)\<close>: the relaxation pass, the test of the flag, the commit.
  The boolean says whether the loop goes on.\<close>

definition cycle :: "globals \<Rightarrow> error + bool \<times> globals" where
  "cycle g =
     (case processBlocks g of
        Inl e \<Rightarrow> Inl e
      | Inr g1 \<Rightarrow>
          if value_change_flag g1 = 0 then Inr (False, g1)
          else (case updateMatrix (g1\<lparr>value_change_flag := 0\<rparr>) of
                  Inl e \<Rightarrow> Inl e
                | Inr g2 \<Rightarrow> Inr (True, g2)))"

fun main_loop :: "nat \<Rightarrow> globals \<Rightarrow> (error + globals) option" where
  "main_loop 0 g = None"
| "main_loop (Suc fuel) g =
     (case cycle g of
        Inl e \<Rightarrow> Some (Inl e)
      | Inr (again, g') \<Rightarrow> if again then main_loop fuel g' else Some (Inr g'))"

text \<open>
  The globals when the loop is entered. \<open>n\<close> and \<open>p\<close> are the values \<^verbatim>\<open>atoi\<close> gives for the
  two arguments; \<open>mem\<close> is what \<^verbatim>\<open>malloc\<close> returns for the grid and \<open>bjunk\<close> what the memory
  of the scratch buffers holds when it is allocated. \<^verbatim>\<open>makeMatrix\<close> is called first, then
  \<^verbatim>\<open>makeBlocks\<close>. A grid that is \<^verbatim>\<open>NULL\<close> gets as far as the loop for a negative size only;
  there the block starts at the index \<open>n\<close>, which is on the left column, and is not
  empty, so that the first turn of the first pass reads \<^verbatim>\<open>matrix[m_i]\<close> through \<^verbatim>\<open>NULL\<close>.
\<close>

definition main_init ::
  "int \<Rightarrow> int \<Rightarrow> (int \<Rightarrow> real) option \<Rightarrow> (nat \<Rightarrow> int \<Rightarrow> real) \<Rightarrow> error + globals" where
  "main_init n p mem bjunk =
     (case makeMatrix n mem of
        Inl e \<Rightarrow> Inl e
      | Inr m \<Rightarrow>
          (case makeBlocks n 1 bjunk of
             Inl e \<Rightarrow> Inl e
           | Inr bs \<Rightarrow>
               (case m of
                  None \<Rightarrow> Inl NullPointer
                | Some a \<Rightarrow>
                    Inr \<lparr>thread_count = 1, decimal_precision = p,
                         decimal_value = pow (1 / 10) p, value_change_flag = 0,
                         matrix_size = n, matrix = a, blocks = bs, faults = []\<rparr>)))"

text \<open>\<open>args\<close> are the command line arguments after the program's name, read by
  \<^verbatim>\<open>atoi\<close>: \<^verbatim>\<open>argc\<close> is their number plus one.\<close>

definition main ::
  "int list \<Rightarrow> (int \<Rightarrow> real) option \<Rightarrow> (nat \<Rightarrow> int \<Rightarrow> real) \<Rightarrow> nat \<Rightarrow>
     (error + globals) option" where
  "main args mem bjunk fuel =
     (if length args + 1 \<noteq> 3 then Some (Inl TooFewArguments)
      else (case main_init (args ! 0) (args ! 1) mem bjunk of
              Inl e \<Rightarrow> Some (Inl e)
            | Inr g \<Rightarrow> main_loop fuel g))"

text \<open>The globals after \<open>k\<close> turns of the loop that ended with a commit.\<close>

fun after_commits :: "nat \<Rightarrow> globals \<Rightarrow> globals option" where
  "after_commits 0 g = Some g"
| "after_commits (Suc k) g =
     (case cycle g of
        Inr (True, g') \<Rightarrow> after_commits k g'
      | _ \<Rightarrow> None)"

text \<open>The rows of the grid, for reading results.\<close>

definition grid :: "globals \<Rightarrow> real list" where
  "grid g = map (cell (matrix g)) [0..matrix_size g * matrix_size g - 1]"

subsection \<open>What a pass computes and what it keeps\<close>

text \<open>
  The value that \<^verbatim>\<open>processBlock\<close> stores for the index \<open>m_i\<close>: the average of the four
  neighbours, or the cell itself on the left and the right column.
\<close>

definition relaxed :: "globals \<Rightarrow> int \<Rightarrow> real" where
  "relaxed g m_i =
     (if c_mod m_i (matrix_size g) \<noteq> 0 \<and> c_mod (m_i + 1) (matrix_size g) \<noteq> 0
      then fst (getSuroundingAverage (matrix g) (matrix_size g) m_i)
      else cell (matrix g) m_i)"

text \<open>
  A block is settled when every slot of its range holds the value a pass over the
  present grid stores there.
\<close>

definition settled :: "globals \<Rightarrow> BLOCK \<Rightarrow> bool" where
  "settled g b \<longleftrightarrow>
     (\<forall>m_i. start_index b \<le> m_i \<and> m_i \<le> end_index b \<longrightarrow>
        cell (new_values b) (m_i - start_index b) = relaxed g m_i)"

definition settled_all :: "globals \<Rightarrow> BLOCK option list \<Rightarrow> bool" where
  "settled_all g bs \<longleftrightarrow> (\<forall>b. Some b \<in> set bs \<longrightarrow> settled g b)"

text \<open>
  What a turn of the loops leaves as it is.
\<close>

definition same_grid :: "globals \<Rightarrow> globals \<Rightarrow> bool" where
  "same_grid g g' \<longleftrightarrow>
     matrix g' = matrix g \<and> matrix_size g' = matrix_size g \<and>
     decimal_value g' = decimal_value g \<and> thread_count g' = thread_count g \<and>
     decimal_precision g' = decimal_precision g \<and> blocks g' = blocks g"

definition same_range :: "BLOCK \<Rightarrow> BLOCK \<Rightarrow> bool" where
  "same_range b b' \<longleftrightarrow>
     start_index b' = start_index b \<and> end_index b' = end_index b \<and>
     allocated (new_values b') = allocated (new_values b)"

definition same_config :: "globals \<Rightarrow> globals \<Rightarrow> bool" where
  "same_config g g' \<longleftrightarrow>
     matrix_size g' = matrix_size g \<and> decimal_value g' = decimal_value g \<and>
     thread_count g' = thread_count g \<and> decimal_precision g' = decimal_precision g"

text \<open>
  The blocks on which neither \<^verbatim>\<open>processBlock\<close> nor \<^verbatim>\<open>updateMatrix\<close> ends with an error.
\<close>

fun runnable :: "int \<Rightarrow> BLOCK option list \<Rightarrow> bool" where
  "runnable n [] = True"
| "runnable n (None # bs) = False"
| "runnable n (Some b # bs) = (\<not> (n = 0 \<and> start_index b \<le> end_index b) \<and> runnable n bs)"

text \<open>
  The boundary rule: row 0 and column 0 hold 1.0.
\<close>

definition boundary_ok :: "int \<Rightarrow> double_array \<Rightarrow> bool" where
  "boundary_ok n m \<longleftrightarrow>
     (\<forall>i j. 0 \<le> i \<and> i < n \<and> 0 \<le> j \<and> j < n \<and> (i = 0 \<or> j = 0) \<longrightarrow> cell m (i * n + j) = 1)"

definition starts_inside :: "int \<Rightarrow> BLOCK option list \<Rightarrow> bool" where
  "starts_inside n bs \<longleftrightarrow> (\<forall>b. Some b \<in> set bs \<longrightarrow> n \<le> start_index b)"

definition run_invariant :: "int \<Rightarrow> globals \<Rightarrow> bool" where
  "run_invariant n g \<longleftrightarrow>
     matrix_size g = n \<and> 0 \<le> decimal_value g \<and> boundary_ok n (matrix g) \<and>
     starts_inside n (blocks g)"

definition no_matrix_fault :: "fault list \<Rightarrow> bool" where
  "no_matrix_fault fs \<longleftrightarrow> (\<forall>k. MatrixOutOfBounds k \<notin> set fs)"

subsection \<open>Memory contents and the run on a grid of size 3\<close>

text \<open>
  Fresh memory that holds the same value everywhere.
\<close>

definition zero_mem :: "int \<Rightarrow> real" where
  "zero_mem = (\<lambda>_. 0)"

definition zero_heap :: "nat \<Rightarrow> int \<Rightarrow> real" where
  "zero_heap = (\<lambda>_ _. 0)"

definition half_heap :: "nat \<Rightarrow> int \<Rightarrow> real" where
  "half_heap = (\<lambda>_ _. 1 / 2)"

definition one_heap :: "nat \<Rightarrow> int \<Rightarrow> real" where
  "one_heap = (\<lambda>_ _. 1)"

text \<open>
  The range of a block and the number of doubles requested for its scratch buffer.
\<close>

definition extent :: "BLOCK \<Rightarrow> int \<times> int \<times> int" where
  "extent b = (start_index b, end_index b, allocated (new_values b))"

text \<open>
  With size 3 and precision 2 the globals differ in the grid, the scratch buffer, the
  flag and the recorded faults only.
\<close>

definition size3_block :: "(int \<Rightarrow> real) \<Rightarrow> BLOCK" where
  "size3_block c = \<lparr>start_index = 3, end_index = 5, new_values = \<lparr>allocated = 2, cell = c\<rparr>\<rparr>"

definition size3_globals ::
  "(int \<Rightarrow> real) \<Rightarrow> (int \<Rightarrow> real) \<Rightarrow> int \<Rightarrow> fault list \<Rightarrow> globals" where
  "size3_globals m c f fs =
     \<lparr>thread_count = 1, decimal_precision = 2, decimal_value = 1 / 100,
      value_change_flag = f, matrix_size = 3, matrix = \<lparr>allocated = 9, cell = m\<rparr>,
      blocks = [Some (size3_block c)], faults = fs\<rparr>"

definition size3_grid :: "real \<Rightarrow> int \<Rightarrow> real" where
  "size3_grid v = zero_mem(0 := 1, 1 := 1, 2 := 1, 3 := 1, 4 := v, 5 := 0, 6 := 1, 7 := 0, 8 := 0)"

definition size3_scratch :: "(int \<Rightarrow> real) \<Rightarrow> int \<Rightarrow> real" where
  "size3_scratch c = c(0 := 1, 1 := 1 / 2, 2 := 0)"

text \<open>
  The globals of the run on memory that holds 0.0: when the loop is entered, after
  the first commit, and when the loop ends.
\<close>

definition run3_start :: globals where
  "run3_start = size3_globals (size3_grid 0) (zero_heap 0) 0 []"

definition run3_committed :: globals where
  "run3_committed =
     size3_globals (size3_grid (1 / 2)) (size3_scratch (zero_heap 0)) 0 [ScratchOutOfBounds 3 2]"

definition run3_end :: globals where
  "run3_end =
     size3_globals (size3_grid (1 / 2)) (size3_scratch (size3_scratch (zero_heap 0))) 0
       [ScratchOutOfBounds 3 2, ScratchOutOfBounds 3 2]"

section \<open>C arithmetic on the operands the program has\<close>

lemma c_div_nonneg: "0 \<le> a \<Longrightarrow> 0 < b \<Longrightarrow> c_div a b = a div b"
  by (simp add: c_div_def sgn_if)

lemma c_mod_nonneg: "0 \<le> a \<Longrightarrow> 0 < b \<Longrightarrow> c_mod a b = a mod b"
  by (simp add: c_mod_def c_div_nonneg minus_mult_div_eq_mod)

lemma c_mod_self: "a \<noteq> 0 \<Longrightarrow> c_mod a a = 0"
  by (simp add: c_mod_def c_div_def sgn_if)

lemma c_div_self: "a \<noteq> 0 \<Longrightarrow> c_div a a = 1"
  by (simp add: c_div_def sgn_if)

section \<open>The array of blocks\<close>

text \<open>\<^verbatim>\<open>makeBlocks\<close> writes \<^verbatim>\<open>blocks[i]\<close> for \<open>i < equal_block_count\<close>, and the count never
  exceeds \<^verbatim>\<open>thread_count\<close>: no write falls outside the array of blocks, which is why the
  model can write the array with a list update.\<close>

lemma mutable_count_lower: "- 1 \<le> n * n - n * (2::int)"
proof -
  have "n * n - n * 2 = (n - 1) * (n - 1) - 1" by (simp add: algebra_simps)
  moreover have "0 \<le> (n - 1) * (n - 1)" by simp
  ultimately show ?thesis by linarith
qed

lemma block_count_le:
  assumes "t \<noteq> 0" and "- 1 \<le> M" and "\<lceil>real_of_int M / real t\<rceil> \<noteq> 0"
  shows "c_div (M - c_mod M \<lceil>real_of_int M / real t\<rceil>) \<lceil>real_of_int M / real t\<rceil> \<le> int t"
proof -
  let ?E = "\<lceil>real_of_int M / real t\<rceil>"
  have tpos: "0 < real t" using assms(1) by simp
  consider "0 < M" | "M = 0" | "M = - 1" using assms(2) by linarith
  then show ?thesis
  proof cases
    case 1
    then have "0 < real_of_int M / real t" using tpos by simp
    then have E: "0 < ?E" by (simp add: less_ceiling_iff)
    have "real_of_int M / real t \<le> real_of_int ?E" by (rule le_of_int_ceiling)
    then have "real_of_int M \<le> real_of_int ?E * real t"
      using tpos by (simp only: pos_divide_le_eq)
    then have "real_of_int M \<le> real_of_int (?E * int t)" by simp
    then have Mle: "M \<le> ?E * int t" by (simp only: of_int_le_iff)
    have md: "c_mod M ?E = M mod ?E" using 1 E by (simp add: c_mod_nonneg)
    have "M - M mod ?E = ?E * (M div ?E)" by (simp add: minus_mod_eq_mult_div)
    moreover have "0 \<le> ?E * (M div ?E)" using 1 E by (simp add: pos_imp_zdiv_nonneg_iff)
    ultimately have "c_div (M - c_mod M ?E) ?E = (?E * (M div ?E)) div ?E"
      using E md by (simp add: c_div_nonneg)
    also have "\<dots> = M div ?E" by (rule nonzero_mult_div_cancel_left [OF assms(3)])
    also have "\<dots> \<le> (?E * int t) div ?E" using Mle E by (rule zdiv_mono1)
    also have "\<dots> = int t" by (rule nonzero_mult_div_cancel_left [OF assms(3)])
    finally show ?thesis .
  next
    case 2
    with assms(3) show ?thesis by simp
  next
    case 3
    show ?thesis
    proof (cases "t = 1")
      case True
      have "\<lceil>- 1 :: real\<rceil> = - 1" using ceiling_of_int [of "- 1", where 'a = real] by simp
      with 3 True show ?thesis by (simp add: c_mod_def c_div_def)
    next
      case False
      with assms(1) have "2 \<le> real t" by simp
      then have "- 1 < - 1 / real t" "- 1 / real t \<le> 0" by (simp_all add: field_simps)
      then have "\<lceil>- 1 / real t\<rceil> = 0" by (intro ceiling_unique) simp_all
      with 3 assms(3) show ?thesis by simp
    qed
  qed
qed

text \<open>
  With one thread there is one block: the whole mutable range.
\<close>

lemma makeBlocks_one:
  "makeBlocks n 1 bj =
     (if n * n - n * 2 = 0 then Inl DivisionByZero
      else Inr [Some (new_block n (n + (n * n - n * 2) - 1) (bj 0))])"
  by (simp add: makeBlocks_def Let_def c_mod_self c_div_self algebra_simps)

lemma fold_blocks_length:
  "length (fold (\<lambda>i bs. bs[nat i := f i]) is bs) = length bs"
  by (induction "is" arbitrary: bs) simp_all

lemma fold_blocks_nth:
  "0 \<le> lo \<Longrightarrow> k < length bs \<Longrightarrow>
   fold (\<lambda>i bs. bs[nat i := f i]) [lo..hi] bs ! k =
     (if lo \<le> int k \<and> int k \<le> hi then f (int k) else bs ! k)"
proof (induction lo hi arbitrary: bs rule: upto.induct)
  case (1 lo hi)
  show ?case
  proof (cases "lo \<le> hi")
    case True
    then have eq: "[lo..hi] = lo # [lo + 1..hi]" by (simp add: upto_rec1)
    have "0 \<le> lo + 1" using "1.prems" by simp
    moreover have "k < length (bs[nat lo := f lo])" using "1.prems" by simp
    ultimately show ?thesis
      using "1.IH" [OF True, of "bs[nat lo := f lo]"] eq "1.prems" True
      by (auto simp: nth_list_update)
  next
    case False
    then show ?thesis by auto
  qed
qed


text \<open>The entries that \<^verbatim>\<open>makeBlocks\<close> writes, for a size from 3 on and at least one thread:
  they are not empty, they lie in the mutable range, they come in increasing order without
  overlap, and every index of the mutable range is in one of them.\<close>

lemma makeBlocks_written_blocks:
  assumes "3 \<le> n" and "t \<noteq> 0"
  shows "\<exists>bs. makeBlocks n t bj = Inr bs \<and> length bs = t \<and>
           (\<forall>k b. k < t \<and> bs ! k = Some b \<longrightarrow>
              start_index b \<le> end_index b \<and> n \<le> start_index b \<and> end_index b \<le> n * n - n - 1) \<and>
           (\<forall>j k b c. j < k \<and> k < t \<and> bs ! j = Some b \<and> bs ! k = Some c \<longrightarrow>
              end_index b < start_index c) \<and>
           (\<forall>x. n \<le> x \<and> x \<le> n * n - n - 1 \<longrightarrow>
              (\<exists>k b. k < t \<and> bs ! k = Some b \<and> start_index b \<le> x \<and> x \<le> end_index b))"
proof -
  define M where "M = n * n - n * 2"
  define E where "E = \<lceil>real_of_int M / real t\<rceil>"
  define L where "L = M mod E"
  define C where "C = M div E"
  define blk where "blk i = new_block (n + E * i) (n + E * (i + 1) - 1) (bj (nat i))" for i
  define lst where "lst = new_block (n + M - L) (n * n - n - 1) (bj (t - 1))"
  define B1 where "B1 = fold (\<lambda>i bs. bs[nat i := Some (blk i)]) [0..C - 1] (replicate t None)"
  define bs where "bs = (if L \<noteq> 0 then B1[t - 1 := Some lst] else B1)"
  have "M = n * (n - 2)" by (simp add: M_def algebra_simps)
  moreover have "0 < n * (n - 2)" using assms(1) by (intro mult_pos_pos) simp_all
  ultimately have M: "0 < M" by simp
  have tpos: "0 < real t" using assms(2) by simp
  have "0 < real_of_int M / real t" using M tpos by simp
  then have E: "0 < E" unfolding E_def by (simp add: less_ceiling_iff)
  have "real_of_int M / real t \<le> real_of_int E" unfolding E_def by (rule le_of_int_ceiling)
  then have "real_of_int M \<le> real_of_int E * real t" using tpos by (simp only: pos_divide_le_eq)
  then have "real_of_int M \<le> real_of_int (E * int t)" by simp
  then have Mle: "M \<le> E * int t" by (simp only: of_int_le_iff)
  have split: "E * C + L = M" by (simp add: C_def L_def)
  have L: "0 \<le> L" "L < E" using E by (simp_all add: L_def)
  have C0: "0 \<le> C" using M E by (simp add: C_def pos_imp_zdiv_nonneg_iff)
  have Cle: "C \<le> int t"
  proof -
    have "E * C \<le> E * int t" using split L Mle by linarith
    then show ?thesis using E by simp
  qed
  have Clt: "C < int t" if "L \<noteq> 0"
  proof -
    have "E * C < E * int t" using split L Mle that by linarith
    then show ?thesis using E by simp
  qed
  have cm: "c_mod M E = L" using M E by (simp add: c_mod_nonneg L_def)
  have "M - L = E * C" using split by simp
  then have cd: "c_div (M - L) E = C" using E C0 by (simp add: c_div_nonneg)
  have mb: "makeBlocks n t bj = Inr bs"
    unfolding makeBlocks_def Let_def M_def [symmetric] E_def [symmetric] cm cd
    using assms(2) E by (simp add: bs_def B1_def blk_def lst_def)
  have lenB1: "length B1 = t" by (simp add: B1_def fold_blocks_length)
  have len: "length bs = t" by (simp add: bs_def lenB1)
  have B1nth: "B1 ! k = (if int k < C then Some (blk (int k)) else None)" if "k < t" for k
    using that fold_blocks_nth [of 0 k "replicate t None" "\<lambda>i. Some (blk i)" "C - 1"]
    by (auto simp: B1_def)
  have nth: "bs ! k = Some b \<longleftrightarrow> (int k < C \<and> b = blk (int k)) \<or> (L \<noteq> 0 \<and> k = t - 1 \<and> b = lst)"
    if "k < t" for k b
  proof (cases "L \<noteq> 0 \<and> k = t - 1")
    case True
    then have "\<not> int k < C" using Clt that by auto
    moreover have "bs ! k = Some lst" using True lenB1 that by (simp add: bs_def)
    ultimately show ?thesis using True by auto
  next
    case False
    then have "bs ! k = B1 ! k" by (auto simp: bs_def)
    then show ?thesis using False B1nth [OF that] by auto
  qed
  have blk_se: "start_index (blk i) = n + E * i" "end_index (blk i) = n + E * (i + 1) - 1" for i
    by (simp_all add: blk_def new_block_def)
  have lst_se: "start_index lst = n + M - L" "end_index lst = n * n - n - 1"
    by (simp_all add: lst_def new_block_def)
  have top: "n * n - n - 1 = n + M - 1" by (simp add: M_def)
  have mono: "E * i \<le> E * j" if "i \<le> j" for i j
    using that E by (simp add: mult_left_mono)
  have p1: "start_index b \<le> end_index b \<and> n \<le> start_index b \<and> end_index b \<le> n * n - n - 1"
    if "k < t \<and> bs ! k = Some b" for k b
  proof -
    from that nth consider "int k < C" "b = blk (int k)" | "L \<noteq> 0" "b = lst" by blast
    then show ?thesis
    proof cases
      case 1
      have "E * (int k + 1) \<le> E * C" using 1(1) by (intro mono) simp
      moreover have "0 \<le> E * int k" using E by simp
      moreover have "E * (int k + 1) = E * int k + E" by (simp add: algebra_simps)
      ultimately show ?thesis using 1(2) E split L top by (simp add: blk_se)
    next
      case 2
      have "0 \<le> E * C" using E C0 by simp
      with 2 show ?thesis using L split top by (simp add: lst_se)
    qed
  qed
  have p2: "end_index b < start_index c"
    if h: "j < k \<and> k < t \<and> bs ! j = Some b \<and> bs ! k = Some c" for j k b c
  proof -
    have jt: "j < t" using h by simp
    have bj: "int j < C \<and> b = blk (int j)"
    proof -
      from h jt nth [of j b] have "(int j < C \<and> b = blk (int j)) \<or> j = t - 1" by blast
      moreover have "j \<noteq> t - 1" using h by linarith
      ultimately show ?thesis by blast
    qed
    from h nth [of k c] consider "int k < C" "c = blk (int k)" | "L \<noteq> 0" "c = lst" by blast
    then show ?thesis
    proof cases
      case 1
      have "E * (int j + 1) \<le> E * int k" using h by (intro mono) simp
      then show ?thesis using bj 1 by (simp add: blk_se)
    next
      case 2
      have "E * (int j + 1) \<le> E * C" using bj by (intro mono) simp
      then show ?thesis using bj 2 split by (simp add: blk_se lst_se)
    qed
  qed
  have p3: "\<exists>k b. k < t \<and> bs ! k = Some b \<and> start_index b \<le> x \<and> x \<le> end_index b"
    if h: "n \<le> x \<and> x \<le> n * n - n - 1" for x
  proof (cases "x - n < E * C")
    case True
    define q where "q = (x - n) div E"
    have q0: "0 \<le> q" using h E by (simp add: q_def pos_imp_zdiv_nonneg_iff)
    have dec: "x - n = E * q + (x - n) mod E" by (simp add: q_def)
    have rem: "0 \<le> (x - n) mod E" "(x - n) mod E < E" using E by simp_all
    have lo: "E * q \<le> x - n" using dec rem by linarith
    have hi: "x - n < E * q + E" using dec rem by linarith
    have qC: "q < C"
    proof (rule ccontr)
      assume "\<not> q < C"
      then have "E * C \<le> E * q" by (intro mono) simp
      with lo True show False by linarith
    qed
    have kt: "nat q < t" using qC Cle q0 by linarith
    have "bs ! nat q = Some (blk q)" using nth [OF kt, of "blk q"] qC q0 by simp
    moreover have "start_index (blk q) \<le> x" using lo by (simp add: blk_se)
    moreover have "x \<le> end_index (blk q)" using hi by (simp add: blk_se algebra_simps)
    ultimately show ?thesis using kt by blast
  next
    case False
    then have "L \<noteq> 0" using h split top by linarith
    have kt: "t - 1 < t" using assms(2) by simp
    have "bs ! (t - 1) = Some lst" using nth [OF kt, of lst] \<open>L \<noteq> 0\<close> by simp
    moreover have "start_index lst \<le> x" using False split by (simp add: lst_se)
    moreover have "x \<le> end_index lst" using h by (simp add: lst_se)
    ultimately show ?thesis using kt by blast
  qed
  from mb len p1 p2 p3 show ?thesis by blast
qed

section \<open>A relaxation pass\<close>

lemma same_grid_refl: "same_grid g g"
  by (simp add: same_grid_def)

lemma same_grid_trans: "same_grid g g1 \<Longrightarrow> same_grid g1 g2 \<Longrightarrow> same_grid g g2"
  by (simp add: same_grid_def)

lemma same_range_refl: "same_range b b"
  by (simp add: same_range_def)

lemma same_range_trans: "same_range b b1 \<Longrightarrow> same_range b1 b2 \<Longrightarrow> same_range b b2"
  by (simp add: same_range_def)

lemma relaxed_same_grid: "same_grid g g' \<Longrightarrow> relaxed g' m = relaxed g m"
  by (simp add: same_grid_def relaxed_def)

lemma settled_same_grid: "same_grid g g' \<Longrightarrow> settled g' b = settled g b"
  by (simp add: settled_def relaxed_same_grid)

lemma body_frame:
  assumes "processBlock_body m (b, g) = (b', g')"
  shows "same_grid g g'" and "same_range b b'"
  using assms
  by (auto simp: processBlock_body_def Let_def store_def same_grid_def same_range_def
      split: if_splits prod.splits)

lemma body_cell:
  assumes "processBlock_body m (b, g) = (b', g')"
  shows "cell (new_values b') = (cell (new_values b))(m - start_index b := relaxed g m)"
  using assms
  by (auto simp: processBlock_body_def Let_def store_def relaxed_def
      split: if_splits prod.splits)

lemma body_flag:
  assumes "processBlock_body m (b, g) = (b', g')"
    and "cell (new_values b) (m - start_index b) = relaxed g m"
    and "0 \<le> decimal_value g"
  shows "value_change_flag g' = value_change_flag g"
  using assms
  by (auto simp: processBlock_body_def Let_def store_def relaxed_def
      split: if_splits prod.splits)

lemma fold_frame:
  "fold processBlock_body ms (b, g) = (b', g') \<Longrightarrow> same_grid g g' \<and> same_range b b'"
proof (induction ms arbitrary: b g)
  case Nil
  then show ?case by (simp add: same_grid_refl same_range_refl)
next
  case (Cons m ms)
  obtain b1 g1 where step: "processBlock_body m (b, g) = (b1, g1)"
    by (cases "processBlock_body m (b, g)")
  with Cons.prems have "fold processBlock_body ms (b1, g1) = (b', g')" by simp
  from Cons.IH [OF this] body_frame [OF step] show ?case
    by (blast intro: same_grid_trans same_range_trans)
qed

text \<open>A slot that holds the value the pass computes for it keeps it.\<close>

lemma fold_keeps:
  assumes "fold processBlock_body ms (b, g) = (b', g')"
    and "cell (new_values b) (k - start_index b) = relaxed g k"
  shows "cell (new_values b') (k - start_index b) = relaxed g k"
  using assms
proof (induction ms arbitrary: b g)
  case Nil
  then show ?case by simp
next
  case (Cons m ms)
  obtain b1 g1 where step: "processBlock_body m (b, g) = (b1, g1)"
    by (cases "processBlock_body m (b, g)")
  with Cons.prems have rest: "fold processBlock_body ms (b1, g1) = (b', g')" by simp
  have fr: "same_grid g g1" "same_range b b1" using body_frame [OF step] by simp_all
  have "cell (new_values b1) (k - start_index b) = relaxed g k"
    using body_cell [OF step] Cons.prems(2) by auto
  then have "cell (new_values b1) (k - start_index b1) = relaxed g1 k"
    using fr by (simp add: same_range_def relaxed_same_grid)
  from Cons.IH [OF rest this] fr show ?case
    by (simp add: same_range_def relaxed_same_grid)
qed

lemma fold_sets:
  assumes "fold processBlock_body ms (b, g) = (b', g')" and "k \<in> set ms"
  shows "cell (new_values b') (k - start_index b) = relaxed g k"
  using assms
proof (induction ms arbitrary: b g)
  case Nil
  then show ?case by simp
next
  case (Cons m ms)
  obtain b1 g1 where step: "processBlock_body m (b, g) = (b1, g1)"
    by (cases "processBlock_body m (b, g)")
  with Cons.prems have rest: "fold processBlock_body ms (b1, g1) = (b', g')" by simp
  have fr: "same_grid g g1" "same_range b b1" using body_frame [OF step] by simp_all
  show ?case
  proof (cases "k = m")
    case True
    have "cell (new_values b1) (k - start_index b1) = relaxed g1 k"
      using body_cell [OF step] True fr by (simp add: same_range_def relaxed_same_grid)
    from fold_keeps [OF rest this] fr show ?thesis
      by (simp add: same_range_def relaxed_same_grid)
  next
    case False
    with Cons.prems have "k \<in> set ms" by simp
    from Cons.IH [OF rest this] fr show ?thesis
      by (simp add: same_range_def relaxed_same_grid)
  qed
qed

lemma fold_flag:
  assumes "fold processBlock_body ms (b, g) = (b', g')"
    and "\<forall>k\<in>set ms. cell (new_values b) (k - start_index b) = relaxed g k"
    and "0 \<le> decimal_value g"
  shows "value_change_flag g' = value_change_flag g"
  using assms
proof (induction ms arbitrary: b g)
  case Nil
  then show ?case by simp
next
  case (Cons m ms)
  obtain b1 g1 where step: "processBlock_body m (b, g) = (b1, g1)"
    by (cases "processBlock_body m (b, g)")
  with Cons.prems have rest: "fold processBlock_body ms (b1, g1) = (b', g')" by simp
  have fr: "same_grid g g1" "same_range b b1" using body_frame [OF step] by simp_all
  have f1: "value_change_flag g1 = value_change_flag g"
    using body_flag [OF step] Cons.prems(2,3) by simp
  have "\<forall>k\<in>set ms. cell (new_values b1) (k - start_index b1) = relaxed g1 k"
    using body_cell [OF step] Cons.prems(2) fr
    by (auto simp: same_range_def relaxed_same_grid)
  moreover have "0 \<le> decimal_value g1" using fr Cons.prems(3) by (simp add: same_grid_def)
  ultimately show ?case using Cons.IH [OF rest] f1 by simp
qed

lemma processBlock_frame:
  "processBlock b g = Inr (b', g') \<Longrightarrow> same_grid g g' \<and> same_range b b'"
  by (auto simp: processBlock_def split: if_splits dest: fold_frame)

lemma processBlock_settles:
  assumes "processBlock b g = Inr (b', g')"
  shows "settled g' b'"
proof -
  have fo: "fold processBlock_body [start_index b..end_index b] (b, g) = (b', g')"
    using assms by (simp add: processBlock_def split: if_splits)
  have fr: "same_grid g g'" "same_range b b'" using processBlock_frame [OF assms] by simp_all
  show ?thesis
    unfolding settled_def
  proof (intro allI impI)
    fix k assume "start_index b' \<le> k \<and> k \<le> end_index b'"
    then have "k \<in> set [start_index b..end_index b]" using fr by (simp add: same_range_def)
    from fold_sets [OF fo this] fr show "cell (new_values b') (k - start_index b') = relaxed g' k"
      by (simp add: same_range_def relaxed_same_grid)
  qed
qed

lemma processBlock_settled_flag:
  assumes "processBlock b g = Inr (b', g')" and "settled g b" and "0 \<le> decimal_value g"
  shows "value_change_flag g' = value_change_flag g"
proof -
  have fo: "fold processBlock_body [start_index b..end_index b] (b, g) = (b', g')"
    using assms(1) by (simp add: processBlock_def split: if_splits)
  have "\<forall>k\<in>set [start_index b..end_index b]. cell (new_values b) (k - start_index b) = relaxed g k"
    using assms(2) by (simp add: settled_def)
  from fold_flag [OF fo this assms(3)] show ?thesis .
qed

lemma loop_frame:
  "processBlocks_loop i bs g = Inr (bs', g') \<Longrightarrow>
     same_grid g g' \<and> settled_all g' bs' \<and> runnable (matrix_size g') bs' \<and> length bs' = length bs"
proof (induction i bs g arbitrary: bs' g' rule: processBlocks_loop.induct)
  case (1 i g)
  then show ?case by (auto simp: same_grid_refl settled_all_def)
next
  case (2 i bs g)
  then show ?case by simp
next
  case (3 i block bs g)
  from "3.prems" obtain b1 g1 where pb: "processBlock block g = Inr (b1, g1)"
    by (auto split: sum.splits)
  with "3.prems" obtain bs1 where rest: "processBlocks_loop (Suc i) bs g1 = Inr (bs1, g')"
    and bs': "bs' = Some b1 # bs1"
    by (auto split: sum.splits)
  have ih: "same_grid g1 g'" "settled_all g' bs1" "runnable (matrix_size g') bs1" "length bs1 = length bs"
    using "3.IH" [OF pb refl rest] by simp_all
  have fr: "same_grid g g1" "same_range block b1" using processBlock_frame [OF pb] by simp_all
  have "settled g1 b1" by (rule processBlock_settles [OF pb])
  then have s1: "settled g' b1" using ih(1) by (simp add: settled_same_grid)
  have "\<not> (matrix_size g = 0 \<and> start_index block \<le> end_index block)"
    using pb by (auto simp: processBlock_def split: if_splits)
  then have "\<not> (matrix_size g' = 0 \<and> start_index b1 \<le> end_index b1)"
    using fr ih(1) by (simp add: same_grid_def same_range_def)
  with ih s1 fr bs' show ?case
    by (auto simp: settled_all_def intro: same_grid_trans)
qed

lemma loop_settled:
  "runnable (matrix_size g) bs \<Longrightarrow> settled_all g bs \<Longrightarrow> 0 \<le> decimal_value g \<Longrightarrow>
     \<exists>bs' g'. processBlocks_loop i bs g = Inr (bs', g') \<and>
       value_change_flag g' = value_change_flag g"
proof (induction i bs g rule: processBlocks_loop.induct)
  case (1 i g)
  then show ?case by simp
next
  case (2 i bs g)
  then show ?case by simp
next
  case (3 i block bs g)
  from "3.prems"(1) obtain b1 g1 where pb: "processBlock block g = Inr (b1, g1)"
    by (cases "fold processBlock_body [start_index block..end_index block] (block, g)")
      (auto simp: processBlock_def)
  have fr: "same_grid g g1" using processBlock_frame [OF pb] by simp
  have sb: "settled g block" using "3.prems"(2) by (simp add: settled_all_def)
  have f1: "value_change_flag g1 = value_change_flag g"
    by (rule processBlock_settled_flag [OF pb sb "3.prems"(3)])
  have "runnable (matrix_size g1) bs" using "3.prems"(1) fr by (simp add: same_grid_def)
  moreover have "settled_all g1 bs"
    using "3.prems"(2) fr by (simp add: settled_all_def settled_same_grid)
  moreover have "0 \<le> decimal_value g1" using "3.prems"(3) fr by (simp add: same_grid_def)
  ultimately obtain bs2 g2 where
    "processBlocks_loop (Suc i) bs g1 = Inr (bs2, g2)" "value_change_flag g2 = value_change_flag g1"
    using "3.IH" [OF pb refl] by blast
  with pb f1 show ?case by simp
qed

lemma processBlocks_again:
  assumes "processBlocks g = Inr g1" and "0 \<le> decimal_value g"
  shows "\<exists>g2. processBlocks g1 = Inr g2 \<and> value_change_flag g2 = value_change_flag g1
           \<and> matrix g2 = matrix g1"
proof -
  let ?t = "thread_count g"
  from assms(1) obtain bs' g' where
    lp: "processBlocks_loop 0 (take ?t (blocks g)) g = Inr (bs', g')"
    and g1: "g1 = g'\<lparr>blocks := bs' @ drop ?t (blocks g)\<rparr>"
    by (auto simp: processBlocks_def split: sum.splits)
  have fr: "same_grid g g'" "settled_all g' bs'" "runnable (matrix_size g') bs'"
    "length bs' = length (take ?t (blocks g))"
    using loop_frame [OF lp] by simp_all
  have tc: "thread_count g1 = ?t" using g1 fr(1) by (simp add: same_grid_def)
  have tk: "take (thread_count g1) (blocks g1) = bs'"
    using g1 fr(4) tc by (cases "?t \<le> length (blocks g)") auto
  have "settled_all g1 bs'" using fr(2) g1 by (simp add: settled_all_def settled_def relaxed_def)
  moreover have "runnable (matrix_size g1) bs'" using fr(3) g1 by simp
  moreover have "0 \<le> decimal_value g1" using assms(2) fr(1) g1 by (simp add: same_grid_def)
  ultimately obtain bs2 g2 where
    l2: "processBlocks_loop 0 bs' g1 = Inr (bs2, g2)" and f2: "value_change_flag g2 = value_change_flag g1"
    using loop_settled by blast
  have "same_grid g1 g2" using loop_frame [OF l2] by simp
  then have "matrix g2 = matrix g1" by (simp add: same_grid_def)
  with l2 f2 tk show ?thesis by (simp add: processBlocks_def)
qed

lemma loop_starts:
  "processBlocks_loop i bs g = Inr (bs', g') \<Longrightarrow> starts_inside n bs \<Longrightarrow> starts_inside n bs'"
proof (induction i bs g arbitrary: bs' g' rule: processBlocks_loop.induct)
  case (1 i g)
  then show ?case by simp
next
  case (2 i bs g)
  then show ?case by simp
next
  case (3 i block bs g)
  from "3.prems" obtain b1 g1 where pb: "processBlock block g = Inr (b1, g1)"
    by (auto split: sum.splits)
  with "3.prems" obtain bs1 where rest: "processBlocks_loop (Suc i) bs g1 = Inr (bs1, g')"
    and bs': "bs' = Some b1 # bs1"
    by (auto split: sum.splits)
  have "starts_inside n bs" using "3.prems"(2) by (simp add: starts_inside_def)
  from "3.IH" [OF pb refl rest this] have "starts_inside n bs1" .
  moreover have "n \<le> start_index b1"
    using processBlock_frame [OF pb] "3.prems"(2) by (simp add: same_range_def starts_inside_def)
  ultimately show ?case using bs' by (auto simp: starts_inside_def)
qed

lemma processBlocks_frame:
  assumes "processBlocks g = Inr g1"
  shows "matrix g1 = matrix g" and "same_config g g1"
    and "starts_inside n (blocks g) \<Longrightarrow> starts_inside n (blocks g1)"
proof -
  let ?t = "thread_count g"
  from assms obtain bs' g' where
    lp: "processBlocks_loop 0 (take ?t (blocks g)) g = Inr (bs', g')"
    and g1: "g1 = g'\<lparr>blocks := bs' @ drop ?t (blocks g)\<rparr>"
    by (auto simp: processBlocks_def split: sum.splits)
  have fr: "same_grid g g'" using loop_frame [OF lp] by simp
  show "matrix g1 = matrix g" using fr g1 by (simp add: same_grid_def)
  show "same_config g g1" using fr g1 by (simp add: same_grid_def same_config_def)
  assume si: "starts_inside n (blocks g)"
  then have "starts_inside n (take ?t (blocks g))"
    by (auto simp: starts_inside_def dest: in_set_takeD)
  from loop_starts [OF lp this] have "starts_inside n bs'" .
  moreover have "starts_inside n (drop ?t (blocks g))"
    using si by (auto simp: starts_inside_def dest: in_set_dropD)
  ultimately show "starts_inside n (blocks g1)" using g1 by (auto simp: starts_inside_def)
qed

lemma body_no_matrix_fault:
  assumes "processBlock_body i (b, g) = (b', g')"
    and "0 < matrix_size g" and "allocated (matrix g) = matrix_size g * matrix_size g"
    and "matrix_size g \<le> i" and "i \<le> matrix_size g * matrix_size g - matrix_size g - 1"
    and "no_matrix_fault (faults g)"
  shows "no_matrix_fault (faults g')"
  using assms
  by (auto simp: processBlock_body_def Let_def getSuroundingAverage_def matrix_fault_def
      scratch_fault_def outside_def no_matrix_fault_def split: if_splits)

lemma fold_no_matrix_fault:
  assumes "fold processBlock_body is (b, g) = (b', g')"
    and "0 < matrix_size g" and "allocated (matrix g) = matrix_size g * matrix_size g"
    and "\<forall>i\<in>set is. matrix_size g \<le> i \<and> i \<le> matrix_size g * matrix_size g - matrix_size g - 1"
    and "no_matrix_fault (faults g)"
  shows "no_matrix_fault (faults g')"
  using assms
proof (induction "is" arbitrary: b g)
  case Nil
  then show ?case by simp
next
  case (Cons i "is")
  obtain b1 g1 where step: "processBlock_body i (b, g) = (b1, g1)"
    by (cases "processBlock_body i (b, g)")
  with Cons.prems have rest: "fold processBlock_body is (b1, g1) = (b', g')" by simp
  have fr: "matrix g1 = matrix g" "matrix_size g1 = matrix_size g"
    using body_frame(1) [OF step] by (simp_all add: same_grid_def)
  have "no_matrix_fault (faults g1)"
    using body_no_matrix_fault [OF step] Cons.prems by simp
  with Cons.IH [OF rest] Cons.prems fr show ?case by simp
qed

section \<open>The grid and its boundary\<close>

lemma fold_row_upto:
  "fold (\<lambda>j m. if i = 0 \<or> j = 0 then m(a + j := 1) else m(a + j := (0::real))) [lo..hi] m k =
     (if a + lo \<le> k \<and> k \<le> a + hi then (if i = 0 \<or> k - a = 0 then 1 else 0) else m k)"
proof (induction lo hi arbitrary: m rule: upto.induct)
  case (1 lo hi)
  show ?case
  proof (cases "lo \<le> hi")
    case True
    then have "[lo..hi] = lo # [lo + 1..hi]" by (simp add: upto_rec1)
    then show ?thesis using "1.IH" [OF True] by auto
  next
    case False
    then show ?thesis by simp
  qed
qed

lemma makeMatrix_row_cell:
  "makeMatrix_row n i m k =
     (if i * n \<le> k \<and> k < i * n + n then (if i = 0 \<or> k - i * n = 0 then 1 else 0) else m k)"
  unfolding makeMatrix_row_def using fold_row_upto [of i "i * n" 0 "n - 1" m k] by auto

lemma fold_rows_below:
  "0 < n \<Longrightarrow> k < lo * n \<Longrightarrow> fold (makeMatrix_row n) [lo..hi] m k = m k"
proof (induction lo hi arbitrary: m rule: upto.induct)
  case (1 lo hi)
  show ?case
  proof (cases "lo \<le> hi")
    case True
    then have eq: "[lo..hi] = lo # [lo + 1..hi]" by (simp add: upto_rec1)
    have "k < (lo + 1) * n" using "1.prems" by (simp add: algebra_simps)
    from "1.IH" [OF True "1.prems"(1) this] eq "1.prems" show ?thesis
      by (simp add: makeMatrix_row_cell)
  next
    case False
    then show ?thesis by simp
  qed
qed

lemma fold_rows_cell:
  "0 < n \<Longrightarrow> lo \<le> i \<Longrightarrow> i \<le> hi \<Longrightarrow> 0 \<le> j \<Longrightarrow> j < n \<Longrightarrow>
     fold (makeMatrix_row n) [lo..hi] m (i * n + j) = (if i = 0 \<or> j = 0 then 1 else 0)"
proof (induction lo hi arbitrary: m rule: upto.induct)
  case (1 lo hi)
  from "1.prems" have le: "lo \<le> hi" by simp
  then have eq: "[lo..hi] = lo # [lo + 1..hi]" by (simp add: upto_rec1)
  show ?case
  proof (cases "i = lo")
    case True
    have lt: "lo * n + j < (lo + 1) * n" using "1.prems" by (simp add: algebra_simps)
    have "fold (makeMatrix_row n) [lo..hi] m (i * n + j) =
            fold (makeMatrix_row n) [lo + 1..hi] (makeMatrix_row n lo m) (lo * n + j)"
      using eq True by simp
    also have "\<dots> = makeMatrix_row n lo m (lo * n + j)"
      by (rule fold_rows_below [OF "1.prems"(1) lt])
    also have "\<dots> = (if i = 0 \<or> j = 0 then 1 else 0)"
      using True "1.prems" by (simp add: makeMatrix_row_cell)
    finally show ?thesis .
  next
    case False
    then have "lo + 1 \<le> i" using "1.prems" by simp
    from "1.IH" [OF le "1.prems"(1) this "1.prems"(3,4,5)] eq show ?thesis by simp
  qed
qed

lemma makeMatrix_loops_cell:
  "0 \<le> i \<Longrightarrow> i < n \<Longrightarrow> 0 \<le> j \<Longrightarrow> j < n \<Longrightarrow>
     cell (makeMatrix_loops n junk) (i * n + j) = (if i = 0 \<or> j = 0 then 1 else 0)"
  by (simp add: makeMatrix_loops_def fold_rows_cell)

lemma makeMatrix_loops_boundary: "boundary_ok n (makeMatrix_loops n junk)"
  by (simp add: boundary_ok_def makeMatrix_loops_cell)

text \<open>When \<^verbatim>\<open>makeMatrix\<close> returns a grid, the product fitted a C int, \<^verbatim>\<open>malloc\<close> returned
  memory and the grid is that memory after the two loops.\<close>

lemma makeMatrix_grid:
  "makeMatrix n mem = Inr (Some a) \<Longrightarrow>
     \<exists>junk. mem = Some junk \<and> a = makeMatrix_loops n junk \<and> n * n \<le> INT_MAX"
  by (auto simp: makeMatrix_def split: if_splits option.splits)

lemma makeMatrix_boundary: "makeMatrix n mem = Inr (Some a) \<Longrightarrow> boundary_ok n a"
  by (auto dest: makeMatrix_grid simp: makeMatrix_loops_boundary)

text \<open>No grid is created when the square of the size does not fit a C int, which is so
  from the size 46341 on, nor when \<^verbatim>\<open>malloc\<close> returns \<^verbatim>\<open>NULL\<close> for a positive size: the run
  ends there, before \<^verbatim>\<open>makeBlocks\<close> and before the loop.\<close>

lemma makeMatrix_overflow: "INT_MAX < n * n \<Longrightarrow> makeMatrix n mem = Inl IntegerOverflow"
  by (simp add: makeMatrix_def)

lemma makeMatrix_46341:
  "makeMatrix 46340 (Some junk) = Inr (Some (makeMatrix_loops 46340 junk))"
  "makeMatrix 46341 mem = Inl IntegerOverflow"
  by (simp_all add: makeMatrix_def INT_MAX_def)

lemma makeMatrix_null:
  "0 < n \<Longrightarrow> n * n \<le> INT_MAX \<Longrightarrow> makeMatrix n None = Inl NullPointer"
  by (simp add: makeMatrix_def)

lemma main_init_no_grid:
  "INT_MAX < n * n \<Longrightarrow> main_init n p mem bj = Inl IntegerOverflow"
  "0 < n \<Longrightarrow> n * n \<le> INT_MAX \<Longrightarrow> main_init n p None bj = Inl NullPointer"
  by (simp_all add: main_init_def makeMatrix_def)

lemma boundary_ok_trivial: "n \<le> 0 \<Longrightarrow> boundary_ok n m"
  by (auto simp: boundary_ok_def)

lemma update_body_frame:
  "same_config g (updateMatrix_body b m g) \<and> blocks (updateMatrix_body b m g) = blocks g \<and>
   value_change_flag (updateMatrix_body b m g) = value_change_flag g"
  by (simp add: updateMatrix_body_def same_config_def Let_def)

lemma update_body_cell:
  "k \<noteq> m \<or> c_mod m (matrix_size g) = 0 \<Longrightarrow>
     cell (matrix (updateMatrix_body b m g)) k = cell (matrix g) k"
  by (auto simp: updateMatrix_body_def Let_def store_def)

lemma update_fold_frame:
  "same_config g (fold (updateMatrix_body b) ms g) \<and>
   blocks (fold (updateMatrix_body b) ms g) = blocks g \<and>
   value_change_flag (fold (updateMatrix_body b) ms g) = value_change_flag g"
proof (induction ms arbitrary: g)
  case Nil
  then show ?case by (simp add: same_config_def)
next
  case (Cons m ms)
  from Cons [of "updateMatrix_body b m g"] update_body_frame [of g b m]
  show ?case by (simp add: same_config_def)
qed

text \<open>A cell of row 0 or of column 0 is not written when the indexes start at \<open>n\<close> or later.\<close>

lemma update_fold_boundary:
  assumes "0 < matrix_size g" and "\<forall>m\<in>set ms. matrix_size g \<le> m"
    and "0 \<le> k" and "k < matrix_size g \<or> k mod matrix_size g = 0"
  shows "cell (matrix (fold (updateMatrix_body b) ms g)) k = cell (matrix g) k"
  using assms
proof (induction ms arbitrary: g)
  case Nil
  then show ?case by simp
next
  case (Cons m ms)
  let ?g1 = "updateMatrix_body b m g"
  have sz: "matrix_size ?g1 = matrix_size g"
    using update_body_frame [of g b m] by (simp add: same_config_def)
  have "k \<noteq> m \<or> c_mod m (matrix_size g) = 0"
  proof (cases "k = m")
    case True
    with Cons.prems have "matrix_size g \<le> k" by simp
    with Cons.prems(4) have "k mod matrix_size g = 0" by simp
    with True Cons.prems(1,3) show ?thesis by (simp add: c_mod_nonneg)
  next
    case False
    then show ?thesis by simp
  qed
  then have c1: "cell (matrix ?g1) k = cell (matrix g) k" by (rule update_body_cell)
  have "cell (matrix (fold (updateMatrix_body b) ms ?g1)) k = cell (matrix ?g1) k"
    using Cons.prems sz by (intro Cons.IH) simp_all
  with c1 show ?case by simp
qed

lemma update_fold_boundary_ok:
  assumes "0 < matrix_size g" and "matrix_size g \<le> start_index b"
    and "boundary_ok (matrix_size g) (matrix g)"
  shows "boundary_ok (matrix_size g)
           (matrix (fold (updateMatrix_body b) [start_index b..end_index b] g))"
  unfolding boundary_ok_def
proof (intro allI impI)
  fix i j
  let ?n = "matrix_size g"
  assume ij: "0 \<le> i \<and> i < ?n \<and> 0 \<le> j \<and> j < ?n \<and> (i = 0 \<or> j = 0)"
  have k0: "0 \<le> i * ?n + j" using ij assms(1) by simp
  have "i * ?n + j < ?n \<or> (i * ?n + j) mod ?n = 0" using ij by auto
  from update_fold_boundary [OF assms(1) _ k0 this, of "[start_index b..end_index b]" b] assms(2)
  have "cell (matrix (fold (updateMatrix_body b) [start_index b..end_index b] g)) (i * ?n + j)
          = cell (matrix g) (i * ?n + j)"
    by simp
  also have "\<dots> = 1" using assms(3) ij by (simp add: boundary_ok_def)
  finally show "cell (matrix (fold (updateMatrix_body b) [start_index b..end_index b] g))
                  (i * ?n + j) = 1" .
qed

lemma updateMatrix_loop_frame:
  "updateMatrix_loop i bs g = Inr g' \<Longrightarrow> starts_inside (matrix_size g) bs \<Longrightarrow>
     boundary_ok (matrix_size g) (matrix g) \<Longrightarrow>
     same_config g g' \<and> blocks g' = blocks g \<and> value_change_flag g' = value_change_flag g \<and>
     boundary_ok (matrix_size g) (matrix g')"
proof (induction i bs g rule: updateMatrix_loop.induct)
  case (1 i g)
  then show ?case by (simp add: same_config_def)
next
  case (2 i bs g)
  then show ?case by simp
next
  case (3 i block bs g)
  let ?g1 = "fold (updateMatrix_body block) [start_index block..end_index block] g"
  have ok: "\<not> (matrix_size g = 0 \<and> start_index block \<le> end_index block)"
    and rest: "updateMatrix_loop (Suc i) bs ?g1 = Inr g'"
    using "3.prems"(1) by (auto split: if_splits)
  have fr: "same_config g ?g1" "blocks ?g1 = blocks g" "value_change_flag ?g1 = value_change_flag g"
    using update_fold_frame [of g block] by simp_all
  have sz: "matrix_size ?g1 = matrix_size g" using fr(1) by (simp add: same_config_def)
  have st: "matrix_size g \<le> start_index block" "starts_inside (matrix_size g) bs"
    using "3.prems"(2) by (auto simp: starts_inside_def)
  have b1: "boundary_ok (matrix_size g) (matrix ?g1)"
  proof (cases "0 < matrix_size g")
    case True
    from update_fold_boundary_ok [OF True st(1) "3.prems"(3)] show ?thesis .
  next
    case False
    then show ?thesis by (simp add: boundary_ok_trivial)
  qed
  from "3.IH" [OF ok rest] st(2) b1 sz
  have "same_config ?g1 g' \<and> blocks g' = blocks ?g1 \<and> value_change_flag g' = value_change_flag ?g1 \<and>
     boundary_ok (matrix_size g) (matrix g')" by simp
  with fr show ?case by (simp add: same_config_def)
qed

lemma pow_tenth_pos: "0 < pow (1 / 10) p"
  by (simp add: pow_def)

lemma main_init_invariant:
  assumes "main_init n p mem bj = Inr g0"
  shows "run_invariant n g0" and "makeMatrix n mem = Inr (Some (matrix g0))"
    and "thread_count g0 = 1"
    and "value_change_flag g0 = 0"
  using assms pow_tenth_pos [of p] unfolding main_init_def makeBlocks_one
  by (auto simp: run_invariant_def makeMatrix_boundary starts_inside_def new_block_def
      split: if_splits sum.splits option.splits)

lemma updateMatrix_frame:
  assumes "updateMatrix g = Inr g'" and "run_invariant n g"
  shows "run_invariant n g'"
proof -
  have si: "starts_inside (matrix_size g) (take (thread_count g) (blocks g))"
    using assms(2) by (auto simp: run_invariant_def starts_inside_def dest: in_set_takeD)
  have "boundary_ok (matrix_size g) (matrix g)" using assms(2) by (simp add: run_invariant_def)
  from updateMatrix_loop_frame [OF assms(1) [unfolded updateMatrix_def] si this] assms(2)
  show ?thesis by (simp add: run_invariant_def same_config_def)
qed

lemma cycle_invariant:
  assumes "cycle g = Inr (again, g')" and "run_invariant n g"
  shows "run_invariant n g'"
proof -
  from assms(1) obtain g1 where pb: "processBlocks g = Inr g1"
    by (auto simp: cycle_def split: sum.splits)
  have i1: "run_invariant n g1"
    using processBlocks_frame(1,2) [OF pb] processBlocks_frame(3) [OF pb, of n] assms(2)
    by (simp add: run_invariant_def same_config_def)
  show ?thesis
  proof (cases "value_change_flag g1 = 0")
    case True
    with assms(1) pb have "g' = g1" by (simp add: cycle_def)
    with i1 show ?thesis by simp
  next
    case False
    with assms(1) pb have up: "updateMatrix (g1\<lparr>value_change_flag := 0\<rparr>) = Inr g'"
      by (auto simp: cycle_def split: sum.splits)
    have "run_invariant n (g1\<lparr>value_change_flag := 0\<rparr>)" using i1 by (simp add: run_invariant_def)
    from updateMatrix_frame [OF up this] show ?thesis .
  qed
qed

lemma after_commits_invariant:
  "after_commits k g0 = Some g \<Longrightarrow> run_invariant n g0 \<Longrightarrow> run_invariant n g"
proof (induction k arbitrary: g0)
  case 0
  then show ?case by simp
next
  case (Suc k)
  from Suc.prems(1) obtain g1 where cy: "cycle g0 = Inr (True, g1)"
    and rest: "after_commits k g1 = Some g"
    by (auto split: sum.splits prod.splits bool.splits)
  from Suc.IH [OF rest cycle_invariant [OF cy Suc.prems(2)]] show ?case .
qed

lemma main_loop_invariant:
  "main_loop fuel g0 = Some (Inr g) \<Longrightarrow> run_invariant n g0 \<Longrightarrow> run_invariant n g"
proof (induction fuel arbitrary: g0)
  case 0
  then show ?case by simp
next
  case (Suc fuel)
  from Suc.prems(1) obtain again g1 where cy: "cycle g0 = Inr (again, g1)"
    by (auto split: sum.splits)
  have i1: "run_invariant n g1" by (rule cycle_invariant [OF cy Suc.prems(2)])
  show ?case
  proof (cases again)
    case True
    with Suc.prems(1) cy have "main_loop fuel g1 = Some (Inr g)" by simp
    from Suc.IH [OF this i1] show ?thesis .
  next
    case False
    with Suc.prems(1) cy have "g = g1" by simp
    with i1 show ?thesis by simp
  qed
qed

lemma no_mutable_cells: "n * n - n * 2 = 0 \<longleftrightarrow> n = 0 \<or> n = (2::int)"
proof -
  have "n * n - n * 2 = n * (n - 2)" by (simp add: algebra_simps)
  then show ?thesis by auto
qed

section \<open>The run on a grid of size 3, evaluated\<close>

lemma makeMatrix_loops_3:
  "makeMatrix_loops 3 mj =
     \<lparr>allocated = 9,
      cell = mj(0 := 1, 1 := 1, 2 := 1, 3 := 1, 4 := 0, 5 := 0, 6 := 1, 7 := 0, 8 := 0)\<rparr>"
  by (simp add: makeMatrix_loops_def makeMatrix_row_def upto_rec1)

lemma makeMatrix_3: "makeMatrix 3 (Some mj) = Inr (Some (makeMatrix_loops 3 mj))"
  by (simp add: makeMatrix_def INT_MAX_def)

lemma makeBlocks_3_1: "makeBlocks 3 1 bj = Inr [Some (size3_block (bj 0))]"
  unfolding makeBlocks_one by (simp add: new_block_def size3_block_def)

lemma main_init_3:
  "main_init 3 2 (Some zero_mem) bj = Inr (size3_globals (size3_grid 0) (bj 0) 0 [])"
  unfolding main_init_def makeBlocks_3_1 makeMatrix_3 makeMatrix_loops_3 size3_globals_def
    size3_grid_def
  by (simp add: pow_def power2_eq_square)

lemma size3_grid_cells:
  "size3_grid v 1 = 1" "size3_grid v 3 = 1" "size3_grid v 4 = v" "size3_grid v 5 = 0" "size3_grid v 7 = 0"
  by (simp_all add: size3_grid_def)

lemma processBlock_body_3:
  "processBlock_body 3 (size3_block c, size3_globals (size3_grid v) c0 f fs) =
     (size3_block (c(0 := 1)), size3_globals (size3_grid v) c0 f fs)"
  by (simp add: processBlock_body_def size3_block_def size3_globals_def size3_grid_cells
      c_mod_def c_div_def store_def Let_def matrix_fault_def scratch_fault_def outside_def)

lemma processBlock_body_4:
  "processBlock_body 4 (size3_block c, size3_globals (size3_grid v) c0 f fs) =
     (size3_block (c(1 := 1 / 2)),
      size3_globals (size3_grid v) c0 (if 1 / 2 - c 1 > 1 / 100 then 1 else f) fs)"
  by (simp add: processBlock_body_def size3_block_def size3_globals_def size3_grid_cells
      getSuroundingAverage_def
      c_mod_def c_div_def store_def Let_def matrix_fault_def scratch_fault_def outside_def)

lemma processBlock_body_5:
  "processBlock_body 5 (size3_block c, size3_globals (size3_grid v) c0 f fs) =
     (size3_block (c(2 := 0)), size3_globals (size3_grid v) c0 f (fs @ [ScratchOutOfBounds 3 2]))"
  by (simp add: processBlock_body_def size3_block_def size3_globals_def size3_grid_cells
      c_mod_def c_div_def store_def Let_def matrix_fault_def scratch_fault_def outside_def)

lemma processBlock_3:
  "processBlock (size3_block c) (size3_globals (size3_grid v) c0 f fs) =
     Inr (size3_block (size3_scratch c),
          size3_globals (size3_grid v) c0 (if 1 / 2 - c 1 > 1 / 100 then 1 else f)
            (fs @ [ScratchOutOfBounds 3 2]))"
proof -
  have "[start_index (size3_block c)..end_index (size3_block c)] = [3, 4, 5]"
    by (simp add: size3_block_def upto_rec1)
  moreover have "matrix_size (size3_globals (size3_grid v) c0 f fs) \<noteq> 0"
    by (simp add: size3_globals_def)
  ultimately show ?thesis
    by (simp add: processBlock_def processBlock_body_3 processBlock_body_4 processBlock_body_5
        size3_scratch_def)
qed

lemma size3_globals_blocks:
  "(size3_globals m c f fs)\<lparr>blocks := [Some (size3_block c')]\<rparr> = size3_globals m c' f fs"
  "(size3_globals m c f fs)\<lparr>value_change_flag := f'\<rparr> = size3_globals m c f' fs"
  "thread_count (size3_globals m c f fs) = 1"
  "blocks (size3_globals m c f fs) = [Some (size3_block c)]"
  "value_change_flag (size3_globals m c f fs) = f"
  "faults (size3_globals m c f fs) = fs"
  "matrix_size (size3_globals m c f fs) = 3"
  "cell (matrix (size3_globals m c f fs)) = m"
  by (simp_all add: size3_globals_def)

lemma processBlocks_3:
  "processBlocks (size3_globals (size3_grid v) c f fs) =
     Inr (size3_globals (size3_grid v) (size3_scratch c) (if 1 / 2 - c 1 > 1 / 100 then 1 else f)
            (fs @ [ScratchOutOfBounds 3 2]))"
  by (simp add: processBlocks_def size3_globals_blocks processBlock_3)

lemma updateMatrix_3:
  "updateMatrix (size3_globals (size3_grid v) c f fs) = Inr (size3_globals (size3_grid (c 1)) c f fs)"
proof -
  have "[start_index (size3_block c)..end_index (size3_block c)] = [3, 4, 5]"
    by (simp add: size3_block_def upto_rec1)
  then show ?thesis
    by (simp add: updateMatrix_def size3_globals_blocks)
      (simp add: updateMatrix_body_def size3_globals_def size3_block_def size3_grid_def
        c_mod_def c_div_def store_def Let_def matrix_fault_def scratch_fault_def outside_def
        fun_eq_iff)
qed

lemma cycle_3:
  "cycle (size3_globals (size3_grid v) c 0 fs) =
     (if 1 / 2 - c 1 > 1 / 100
      then Inr (True, size3_globals (size3_grid (1 / 2)) (size3_scratch c) 0
                        (fs @ [ScratchOutOfBounds 3 2]))
      else Inr (False, size3_globals (size3_grid v) (size3_scratch c) 0
                         (fs @ [ScratchOutOfBounds 3 2])))"
  by (simp add: cycle_def processBlocks_3 size3_globals_blocks updateMatrix_3 size3_scratch_def)

lemma size3_scratch_1: "size3_scratch c 1 = 1 / 2"
  by (simp add: size3_scratch_def)

lemma grid_3: "grid (size3_globals (size3_grid v) c f fs) = [1, 1, 1, 1, v, 0, 1, 0, 0]"
  by (simp add: grid_def size3_globals_def size3_grid_def upto_rec1)

lemma after_commits_3:
  "after_commits 1 (size3_globals (size3_grid 0) (zero_heap 0) 0 []) =
     Some (size3_globals (size3_grid (1 / 2)) (size3_scratch (zero_heap 0)) 0 [ScratchOutOfBounds 3 2])"
  by (simp add: cycle_3 zero_heap_def)

lemma processBlocks_3_again:
  "processBlocks (size3_globals (size3_grid (1 / 2)) (size3_scratch (zero_heap 0)) 0
                    [ScratchOutOfBounds 3 2]) =
     Inr (size3_globals (size3_grid (1 / 2)) (size3_scratch (size3_scratch (zero_heap 0))) 0
            [ScratchOutOfBounds 3 2, ScratchOutOfBounds 3 2])"
  by (simp add: processBlocks_3 size3_scratch_1)

lemma main_loop_3:
  "main_loop 2 (size3_globals (size3_grid 0) (zero_heap 0) 0 []) =
     Some (Inr (size3_globals (size3_grid (1 / 2)) (size3_scratch (size3_scratch (zero_heap 0))) 0
                  [ScratchOutOfBounds 3 2, ScratchOutOfBounds 3 2]))"
  by (simp add: cycle_3 zero_heap_def numeral_2_eq_2 size3_scratch_1)

lemma run_zero_1: "main [3, 2] (Some zero_mem) zero_heap 1 = None"
  by (simp add: main_def main_init_3 cycle_3 zero_heap_def)

lemma run_zero_2:
  "main [3, 2] (Some zero_mem) zero_heap 2 =
     Some (Inr (size3_globals (size3_grid (1 / 2)) (size3_scratch (size3_scratch (zero_heap 0))) 0
                  [ScratchOutOfBounds 3 2, ScratchOutOfBounds 3 2]))"
  by (simp add: main_def main_init_3 cycle_3 zero_heap_def numeral_2_eq_2 size3_scratch_1)

lemma run_half_1:
  "main [3, 2] (Some zero_mem) half_heap 1 =
     Some (Inr (size3_globals (size3_grid 0) (size3_scratch (half_heap 0)) 0
                  [ScratchOutOfBounds 3 2]))"
  by (simp add: main_def main_init_3 cycle_3 half_heap_def)

lemma run_one_1:
  "main [3, 2] (Some zero_mem) one_heap 1 =
     Some (Inr (size3_globals (size3_grid 0) (size3_scratch (one_heap 0)) 0
                  [ScratchOutOfBounds 3 2]))"
  by (simp add: main_def main_init_3 cycle_3 one_heap_def)

text \<open>
  The run by what slot 1 of the scratch buffer holds when it is allocated: if
  1/2 exceeds it by more than 1/100, the loop does not end within one turn and ends
  within two, with 1/2 at index 4; if not, the loop ends within one turn and the grid is
  as it was created. Memory that holds 0.0 is of the first kind.
\<close>

lemma size3_run_by_scratch_content:
  "main [3, 2] (Some zero_mem) bj 1 =
     (if 1 / 2 - bj 0 1 > 1 / 100 then None
      else Some (Inr (size3_globals (size3_grid 0) (size3_scratch (bj 0)) 0
                        [ScratchOutOfBounds 3 2])))"
  "1 / 2 - bj 0 1 > 1 / 100 \<Longrightarrow>
   main [3, 2] (Some zero_mem) bj 2 =
     Some (Inr (size3_globals (size3_grid (1 / 2)) (size3_scratch (size3_scratch (bj 0))) 0
                  [ScratchOutOfBounds 3 2, ScratchOutOfBounds 3 2]))"
  by (simp_all add: main_def main_init_3 cycle_3 numeral_2_eq_2 size3_scratch_1)

lemma size3_run_on_zeroed_memory:
  "main [3, 2] (Some zero_mem) zero_heap 1 = None \<and>
   map_option (map_sum id grid) (main [3, 2] (Some zero_mem) zero_heap 2) =
     Some (Inr [1, 1, 1, 1, 1 / 2, 0, 1, 0, 0])"
  unfolding run_zero_1 run_zero_2 by (simp add: grid_3)

section \<open>The run on a grid of size 1\<close>

text \<open>
  With size 1 there is one cell and \<open>-1\<close> mutable cells: the block is the empty range from
  1 to \<open>-1\<close>, the first pass has no turn and leaves the flag at 0, and the loop ends.
\<close>

lemma makeMatrix_1:
  "makeMatrix 1 (Some junk) = Inr (Some \<lparr>allocated = 1, cell = junk(0 := 1)\<rparr>)"
  by (simp add: makeMatrix_def INT_MAX_def makeMatrix_loops_def makeMatrix_row_def upto_rec1)

lemma main_init_1:
  "main_init 1 p (Some junk) bj =
     Inr \<lparr>thread_count = 1, decimal_precision = p, decimal_value = pow (1 / 10) p,
          value_change_flag = 0, matrix_size = 1,
          matrix = \<lparr>allocated = 1, cell = junk(0 := 1)\<rparr>,
          blocks = [Some (new_block 1 (- 1) (bj 0))], faults = []\<rparr>"
  unfolding main_init_def makeBlocks_one makeMatrix_1 by simp

lemma run_size_1:
  "map_option (map_sum id grid) (main [1, p] (Some junk) bj 1) = Some (Inr [1])"
  by (simp add: main_def main_init_1 cycle_def processBlocks_def processBlock_def
      new_block_def grid_def upto_rec1)

section \<open>The claims\<close>

text \<open>
  C1. The claim: for a non-edge index, a change is signalled if and only if the absolute
  difference between the new average and the previous value of the scratch slot exceeds
  the threshold, and the new value is stored either way. The code tests
  \<^verbatim>\<open>diff > decimal_value\<close> with the signed difference. On the grid of size 3, at index 4,
  with 1.0 in the scratch slot: the new value is 1/2, the absolute difference 1/2 exceeds
  the threshold 1/100, the turn of the loop stores 1/2 and leaves the flag at 0, and the
  run that starts with such a scratch buffer ends after its first pass.
\<close>

theorem signed_comparison_ignores_decrease:
  "main_init 3 2 (Some zero_mem) one_heap = Inr (size3_globals (size3_grid 0) (one_heap 0) 0 []) \<and>
   fst (getSuroundingAverage (matrix (size3_globals (size3_grid 0) (one_heap 0) 0 [])) 3 4) = 1 / 2 \<and>
   cell (new_values (size3_block (one_heap 0))) (4 - 3) = 1 \<and>
   decimal_value (size3_globals (size3_grid 0) (one_heap 0) 0 []) < \<bar>1 / 2 - 1\<bar> \<and>
   processBlock_body 4 (size3_block (one_heap 0), size3_globals (size3_grid 0) (one_heap 0) 0 []) =
     (size3_block ((one_heap 0)(1 := 1 / 2)), size3_globals (size3_grid 0) (one_heap 0) 0 []) \<and>
   main [3, 2] (Some zero_mem) one_heap 1 =
     Some (Inr (size3_globals (size3_grid 0) (size3_scratch (one_heap 0)) 0
                  [ScratchOutOfBounds 3 2]))"
proof (intro conjI)
  show "main_init 3 2 (Some zero_mem) one_heap = Inr (size3_globals (size3_grid 0) (one_heap 0) 0 [])"
    by (rule main_init_3)
  show "fst (getSuroundingAverage (matrix (size3_globals (size3_grid 0) (one_heap 0) 0 [])) 3 4) = 1 / 2"
    by (simp add: getSuroundingAverage_def size3_globals_blocks size3_grid_cells)
  show "cell (new_values (size3_block (one_heap 0))) (4 - 3) = 1"
    by (simp add: size3_block_def one_heap_def)
  show "decimal_value (size3_globals (size3_grid 0) (one_heap 0) 0 []) < \<bar>1 / 2 - 1\<bar>"
    by (simp add: size3_globals_def)
  show "processBlock_body 4 (size3_block (one_heap 0), size3_globals (size3_grid 0) (one_heap 0) 0 []) =
     (size3_block ((one_heap 0)(1 := 1 / 2)), size3_globals (size3_grid 0) (one_heap 0) 0 [])"
    by (simp add: processBlock_body_4 one_heap_def)
  show "main [3, 2] (Some zero_mem) one_heap 1 =
     Some (Inr (size3_globals (size3_grid 0) (size3_scratch (one_heap 0)) 0
                  [ScratchOutOfBounds 3 2]))"
    by (rule run_one_1)
qed

text \<open>
  C2. The claim: for every size from 3 on and every worker count from 1 to the number of
  mutable cells, the blocks are pairwise disjoint, cover the mutable range and no entry
  of the array is left uninitialised or empty. With size 4 and 5 threads (8 mutable
  cells) \<^verbatim>\<open>makeBlocks\<close> writes four blocks of two cells and never writes
  \<^verbatim>\<open>blocks[4]\<close>.
\<close>

theorem uninitialised_block_entry:
  "makeBlocks 4 5 bj =
     Inr [Some (new_block 4 5 (bj 0)), Some (new_block 6 7 (bj 1)), Some (new_block 8 9 (bj 2)),
          Some (new_block 10 11 (bj 3)), None]"
  by (simp add: makeBlocks_def Let_def c_mod_def c_div_def upto_rec1 numeral_eq_Suc)

text \<open>
  C3. The claim: with size 3 and precision 2 the first pass flags a change against a
  scratch value of 0.0, the second flags none, and the run ends after two passes with 1/2
  at index 4. The scratch buffer is not initialised: when its slot 1 holds 1/2, the first
  pass flags no change and the run ends after one pass with the grid as it was created.
\<close>

theorem size3_run_depends_on_fresh_memory:
  "map_option (map_sum id grid) (main [3, 2] (Some zero_mem) half_heap 1) =
     Some (Inr [1, 1, 1, 1, 0, 0, 1, 0, 0])"
  unfolding run_half_1 by (simp add: grid_3)

text \<open>
  C4. The claim: the scratch buffer of a block has \<open>end - start + 1\<close> slots, so that every
  write at \<open>m_i - start\<close> is inside it. \<^verbatim>\<open>makeBlocks\<close> requests \<open>end - start\<close> doubles:
  for size 3 the block is 3 to 5 with 2 doubles, and the pass writes slot 2.
\<close>

theorem scratch_buffer_one_slot_short:
  "allocated (new_values (new_block s e junk)) = e - s \<and>
   map_sum id (map (map_option extent)) (makeBlocks 3 1 bj) = Inr [Some (3, 5, 2)] \<and>
   main_init 3 2 (Some zero_mem) bj = Inr (size3_globals (size3_grid 0) (bj 0) 0 []) \<and>
   map_sum id faults (processBlocks (size3_globals (size3_grid 0) (bj 0) 0 [])) =
     Inr [ScratchOutOfBounds 3 2]"
  unfolding makeBlocks_3_1 processBlocks_3 main_init_3
  by (simp add: new_block_def extent_def size3_block_def size3_globals_blocks)

text \<open>
  C5. Boundary invariance. For every size and whatever the fresh memory holds, every cell
  of row 0 and of column 0 holds 1.0 in the grid that \<^verbatim>\<open>makeMatrix\<close> returns, after every
  commit and when the loop ends; a relaxation pass leaves the whole grid as it is, and the
  commit keeps the cells of the boundary.
\<close>

theorem boundary_invariance:
  "(\<forall>a. makeMatrix n mem = Inr (Some a) \<longrightarrow> boundary_ok n a) \<and>
   (\<forall>g0. main_init n p mem bj = Inr g0 \<longrightarrow>
      makeMatrix n mem = Inr (Some (matrix g0)) \<and>
      (\<forall>k g. after_commits k g0 = Some g \<longrightarrow>
         boundary_ok n (matrix g) \<and>
         (\<forall>g1. processBlocks g = Inr g1 \<longrightarrow> matrix g1 = matrix g)) \<and>
      (\<forall>fuel g. main_loop fuel g0 = Some (Inr g) \<longrightarrow> boundary_ok n (matrix g)))"
proof (intro conjI allI impI)
  fix a assume "makeMatrix n mem = Inr (Some a)"
  then show "boundary_ok n a" by (rule makeMatrix_boundary)
next
  fix g0 assume "main_init n p mem bj = Inr g0"
  then show "makeMatrix n mem = Inr (Some (matrix g0))" by (rule main_init_invariant)
next
  fix g0 k g assume "main_init n p mem bj = Inr g0" "after_commits k g0 = Some g"
  then have "run_invariant n g" by (blast intro: after_commits_invariant main_init_invariant)
  then show "boundary_ok n (matrix g)" by (simp add: run_invariant_def)
next
  fix g g1 assume "processBlocks g = Inr g1"
  then show "matrix g1 = matrix g" by (rule processBlocks_frame)
next
  fix g0 fuel g assume "main_init n p mem bj = Inr g0" "main_loop fuel g0 = Some (Inr g)"
  then have "run_invariant n g" by (blast intro: main_loop_invariant main_init_invariant)
  then show "boundary_ok n (matrix g)" by (simp add: run_invariant_def)
qed

theorem boundary_invariance_witness:
  "main_init 3 2 (Some zero_mem) zero_heap = Inr run3_start \<and>
   after_commits 1 run3_start = Some run3_committed \<and>
   boundary_ok 3 (matrix run3_committed) \<and>
   processBlocks run3_committed = Inr run3_end \<and>
   matrix run3_end = matrix run3_committed \<and>
   main_loop 2 run3_start = Some (Inr run3_end) \<and>
   boundary_ok 3 (matrix run3_end) \<and>
   makeMatrix 3 (Some zero_mem) = Inr (Some (matrix run3_start)) \<and>
   boundary_ok 3 (matrix run3_start)"
proof -
  have i: "main_init 3 2 (Some zero_mem) zero_heap = Inr run3_start"
    unfolding run3_start_def by (rule main_init_3)
  have a: "after_commits 1 run3_start = Some run3_committed"
    unfolding run3_start_def run3_committed_def by (rule after_commits_3)
  have p: "processBlocks run3_committed = Inr run3_end"
    unfolding run3_committed_def run3_end_def by (rule processBlocks_3_again)
  have l: "main_loop 2 run3_start = Some (Inr run3_end)"
    unfolding run3_start_def run3_end_def by (rule main_loop_3)
  note t = boundary_invariance [of 3 "Some zero_mem" 2 zero_heap]
  from t i a have 1: "boundary_ok 3 (matrix run3_committed)" by blast
  from t i a p have 2: "matrix run3_end = matrix run3_committed" by blast
  from t i l have 3: "boundary_ok 3 (matrix run3_end)" by blast
  from t i have 4: "makeMatrix 3 (Some zero_mem) = Inr (Some (matrix run3_start))" by blast
  from t 4 have 5: "boundary_ok 3 (matrix run3_start)" by blast
  from i a p l 1 2 3 4 5 show ?thesis by blast
qed

text \<open>
  C6. The claim: scratch buffers are zero-initialised when they are created. The buffer of
  a new block holds what the memory held: 1.0 in every slot when the memory held 1.0.
\<close>

theorem scratch_buffer_not_initialised:
  "cell (new_values (new_block s e junk)) = junk \<and>
   makeBlocks 3 1 one_heap = Inr [Some (size3_block (one_heap 0))] \<and>
   cell (new_values (size3_block (one_heap 0))) 1 = 1"
  unfolding makeBlocks_3_1 by (simp add: new_block_def size3_block_def one_heap_def)




text \<open>
  C8, as amended. \<^verbatim>\<open>makeMatrix\<close> has no check of the size and rejects no size below 3: for
  every size below 3 whose square fits a C int, when \<^verbatim>\<open>malloc\<close> returns memory,
  \<^verbatim>\<open>makeMatrix\<close> returns \<open>size * size\<close> cells; every cell of row 0 and column 0 holds 1.0
  and every other cell 0.0; for a size of 0 or less there is no row, and the memory is
  returned as it was allocated. With size 1 no error surfaces: the run goes through one
  relaxation pass and ends with the grid of the one cell 1.0.
\<close>

theorem grid_creation_below_size_3:
  assumes "n < 3" and "n * n \<le> INT_MAX"
  shows "\<exists>a. makeMatrix n (Some junk) = Inr (Some a) \<and> allocated a = n * n \<and>
           (\<forall>i j. 0 \<le> i \<and> i < n \<and> 0 \<le> j \<and> j < n \<longrightarrow>
              cell a (i * n + j) = (if i = 0 \<or> j = 0 then 1 else 0)) \<and>
           (n \<le> 0 \<longrightarrow> cell a = junk) \<and>
           (n = 1 \<longrightarrow>
              map_option (map_sum id grid) (main [n, p] (Some junk) bj 1) = Some (Inr [1]))"
proof -
  let ?a = "makeMatrix_loops n junk"
  have mk: "makeMatrix n (Some junk) = Inr (Some ?a)"
    using assms(2) by (simp add: makeMatrix_def)
  have al: "allocated ?a = n * n" by (simp add: makeMatrix_loops_def)
  have cells: "\<forall>i j. 0 \<le> i \<and> i < n \<and> 0 \<le> j \<and> j < n \<longrightarrow>
      cell ?a (i * n + j) = (if i = 0 \<or> j = 0 then 1 else 0)"
    by (simp add: makeMatrix_loops_cell)
  have none: "n \<le> 0 \<longrightarrow> cell ?a = junk"
    by (simp add: makeMatrix_loops_def)
  have run: "n = 1 \<longrightarrow>
      map_option (map_sum id grid) (main [n, p] (Some junk) bj 1) = Some (Inr [1])"
  proof
    assume n: "n = 1"
    show "map_option (map_sum id grid) (main [n, p] (Some junk) bj 1) = Some (Inr [1])"
      unfolding n by (rule run_size_1)
  qed
  from mk al cells none run show ?thesis by blast
qed

theorem grid_creation_below_size_3_witness:
  "(1 :: int) < 3 \<and> (1 :: int) * 1 \<le> INT_MAX \<and>
   map_option (map_sum id grid) (main [1, 4] (Some zero_mem) zero_heap 1) = Some (Inr [1]) \<and>
   (2 :: int) < 3 \<and> (2 :: int) * 2 \<le> INT_MAX \<and>
   (\<exists>a. makeMatrix 2 (Some zero_mem) = Inr (Some a) \<and> allocated a = 2 * 2 \<and>
        cell a (0 * 2 + 0) = 1 \<and> cell a (0 * 2 + 1) = 1 \<and>
        cell a (1 * 2 + 0) = 1 \<and> cell a (1 * 2 + 1) = 0) \<and>
   (- 1 :: int) < 3 \<and> (- 1 :: int) * - 1 \<le> INT_MAX \<and> (- 1 :: int) \<le> 0 \<and>
   (\<exists>a. makeMatrix (- 1) (Some zero_mem) = Inr (Some a) \<and> allocated a = - 1 * - 1 \<and>
        cell a = zero_mem)"
proof -
  have h1: "(1 :: int) < 3" "(1 :: int) * 1 \<le> INT_MAX" by (simp_all add: INT_MAX_def)
  have h2: "(2 :: int) < 3" "(2 :: int) * 2 \<le> INT_MAX" by (simp_all add: INT_MAX_def)
  have h3: "(- 1 :: int) < 3" "(- 1 :: int) * - 1 \<le> INT_MAX" "(- 1 :: int) \<le> 0"
    by (simp_all add: INT_MAX_def)
  from grid_creation_below_size_3 [OF h1, of zero_mem 4 zero_heap]
  have r1: "map_option (map_sum id grid) (main [1, 4] (Some zero_mem) zero_heap 1) =
      Some (Inr [1])"
    by blast
  from grid_creation_below_size_3 [OF h2, of zero_mem 4 zero_heap]
  obtain a where a: "makeMatrix 2 (Some zero_mem) = Inr (Some a)" "allocated a = 2 * 2"
    and c: "\<forall>i j. 0 \<le> i \<and> i < 2 \<and> 0 \<le> j \<and> j < 2 \<longrightarrow>
      cell a (i * 2 + j) = (if i = 0 \<or> j = 0 then 1 else 0)"
    by blast
  have "cell a (0 * 2 + 0) = 1" "cell a (0 * 2 + 1) = 1" "cell a (1 * 2 + 0) = 1"
    "cell a (1 * 2 + 1) = 0"
    using c [rule_format, of 0 0] c [rule_format, of 0 1] c [rule_format, of 1 0]
      c [rule_format, of 1 1]
    by simp_all
  with a have r2: "\<exists>a. makeMatrix 2 (Some zero_mem) = Inr (Some a) \<and> allocated a = 2 * 2 \<and>
        cell a (0 * 2 + 0) = 1 \<and> cell a (0 * 2 + 1) = 1 \<and>
        cell a (1 * 2 + 0) = 1 \<and> cell a (1 * 2 + 1) = 0"
    by blast
  from grid_creation_below_size_3 [OF h3(1,2), of zero_mem 4 zero_heap] h3(3)
  have r3: "\<exists>a. makeMatrix (- 1) (Some zero_mem) = Inr (Some a) \<and> allocated a = - 1 * - 1 \<and>
        cell a = zero_mem"
    by blast
  from h1 h2 h3 r1 r2 r3 show ?thesis by blast
qed

text \<open>
  C8 as it is written (grid creation fails for every size below 3, before any relaxation)
  does not hold: with size 1 and precision 2 the run goes through one pass and ends with
  its grid of one cell.
\<close>

theorem small_grid_is_not_rejected:
  "map_option (map_sum id grid) (main [1, 2] (Some zero_mem) zero_heap 1) = Some (Inr [1])"
  by (rule run_size_1)

text \<open>
  C9. Idempotence after convergence. In every state the run reaches at the head of the
  loop, if a pass over all blocks returns with the flag at 0, a second pass on the same
  grid, with the scratch buffers the first one left, returns with the flag at 0 and the
  grid as it was.
\<close>

theorem convergence_is_stable:
  assumes "main_init n p mem bj = Inr g0" and "after_commits k g0 = Some g"
    and "processBlocks g = Inr g1" and "value_change_flag g1 = 0"
  shows "\<exists>g2. processBlocks g1 = Inr g2 \<and> value_change_flag g2 = 0 \<and> matrix g2 = matrix g1"
proof -
  have "run_invariant n g"
    using assms(1,2) by (blast intro: after_commits_invariant main_init_invariant)
  then have "0 \<le> decimal_value g" by (simp add: run_invariant_def)
  from processBlocks_again [OF assms(3) this] assms(4) show ?thesis by simp
qed

theorem convergence_is_stable_witness:
  "main_init 3 2 (Some zero_mem) zero_heap = Inr run3_start \<and>
   after_commits 1 run3_start = Some run3_committed \<and>
   processBlocks run3_committed = Inr run3_end \<and>
   value_change_flag run3_end = 0 \<and>
   (\<exists>g2. processBlocks run3_end = Inr g2 \<and> value_change_flag g2 = 0 \<and>
         matrix g2 = matrix run3_end)"
proof -
  have i: "main_init 3 2 (Some zero_mem) zero_heap = Inr run3_start"
    unfolding run3_start_def by (rule main_init_3)
  have a: "after_commits 1 run3_start = Some run3_committed"
    unfolding run3_start_def run3_committed_def by (rule after_commits_3)
  have p: "processBlocks run3_committed = Inr run3_end"
    unfolding run3_committed_def run3_end_def by (rule processBlocks_3_again)
  have f: "value_change_flag run3_end = 0"
    by (simp add: run3_end_def size3_globals_blocks)
  from convergence_is_stable [OF i a p f] i a p f show ?thesis by blast
qed

text \<open>
  C10. On a grid of size \<open>n > 0\<close> with \<open>n * n\<close> cells: for every index \<open>i\<close> of the mutable
  range \<open>n \<le> i \<le> n * n - n - 1\<close> that is on neither the left nor the right column, the
  four indexes \<open>i - n\<close>, \<open>i + 1\<close>, \<open>i + n\<close>, \<open>i - 1\<close> that \<open>getSuroundingAverage\<close> reads
  lie in \<open>[0, n * n)\<close> and no read is recorded as out of bounds; and \<^verbatim>\<open>processBlock\<close>
  on a block inside the mutable range records no access outside the grid.
\<close>

theorem neighbour_reads_in_bounds:
  assumes "0 < n" and "allocated m = n * n"
  shows "(\<forall>i. n \<le> i \<and> i \<le> n * n - n - 1 \<and> c_mod i n \<noteq> 0 \<and> c_mod (i + 1) n \<noteq> 0 \<longrightarrow>
            0 \<le> i - n \<and> i - n < n * n \<and> 0 \<le> i + 1 \<and> i + 1 < n * n \<and>
            0 \<le> i + n \<and> i + n < n * n \<and> 0 \<le> i - 1 \<and> i - 1 < n * n \<and>
            getSuroundingAverage m n i =
              ((cell m (i - n) + cell m (i + 1) + cell m (i + n) + cell m (i - 1)) / 4, [])) \<and>
         (\<forall>b g. matrix g = m \<and> matrix_size g = n \<and> n \<le> start_index b \<and>
                end_index b \<le> n * n - n - 1 \<and> no_matrix_fault (faults g) \<longrightarrow>
            (\<exists>b' g'. processBlock b g = Inr (b', g') \<and> no_matrix_fault (faults g')))"
proof -
  have reads: "0 \<le> i - n \<and> i - n < n * n \<and> 0 \<le> i + 1 \<and> i + 1 < n * n \<and>
        0 \<le> i + n \<and> i + n < n * n \<and> 0 \<le> i - 1 \<and> i - 1 < n * n \<and>
        getSuroundingAverage m n i =
          ((cell m (i - n) + cell m (i + 1) + cell m (i + n) + cell m (i - 1)) / 4, [])"
    if "n \<le> i \<and> i \<le> n * n - n - 1 \<and> c_mod i n \<noteq> 0 \<and> c_mod (i + 1) n \<noteq> 0" for i
    using that assms
    by (simp add: getSuroundingAverage_def matrix_fault_def outside_def Let_def)
  have pass: "\<exists>b' g'. processBlock b g = Inr (b', g') \<and> no_matrix_fault (faults g')"
    if h: "matrix g = m \<and> matrix_size g = n \<and> n \<le> start_index b \<and>
           end_index b \<le> n * n - n - 1 \<and> no_matrix_fault (faults g)" for b g
  proof -
    obtain b' g' where fo: "fold processBlock_body [start_index b..end_index b] (b, g) = (b', g')"
      by (cases "fold processBlock_body [start_index b..end_index b] (b, g)")
    have pb: "processBlock b g = Inr (b', g')"
      using fo h assms(1) by (simp add: processBlock_def)
    have "no_matrix_fault (faults g')"
      using fold_no_matrix_fault [OF fo] h assms by auto
    with pb show ?thesis by blast
  qed
  from reads pass show ?thesis by blast
qed

theorem neighbour_reads_in_bounds_witness:
  "(0 :: int) < 3 \<and> allocated (makeMatrix_loops 3 zero_mem) = 3 * 3 \<and>
   (3 :: int) \<le> 4 \<and> (4 :: int) \<le> 3 * 3 - 3 - 1 \<and> c_mod 4 3 \<noteq> 0 \<and> c_mod (4 + 1) 3 \<noteq> 0 \<and>
   getSuroundingAverage (makeMatrix_loops 3 zero_mem) 3 4 = (1 / 2, []) \<and>
   makeMatrix 3 (Some zero_mem) = Inr (Some (makeMatrix_loops 3 zero_mem)) \<and>
   matrix run3_start = makeMatrix_loops 3 zero_mem \<and>
   matrix_size run3_start = 3 \<and>
   3 \<le> start_index (size3_block (zero_heap 0)) \<and>
   end_index (size3_block (zero_heap 0)) \<le> 3 * 3 - 3 - 1 \<and>
   no_matrix_fault (faults run3_start) \<and>
   (\<exists>b' g'. processBlock (size3_block (zero_heap 0)) run3_start = Inr (b', g') \<and>
            no_matrix_fault (faults g'))"
proof -
  have a: "(0 :: int) < 3" "allocated (makeMatrix_loops 3 zero_mem) = 3 * 3"
    by (simp_all add: makeMatrix_loops_def)
  have i: "(3 :: int) \<le> 4 \<and> (4 :: int) \<le> 3 * 3 - 3 - 1 \<and> c_mod 4 3 \<noteq> 0 \<and> c_mod (4 + 1) 3 \<noteq> 0"
    by (simp add: c_mod_def c_div_def)
  note m = makeMatrix_3 [of zero_mem]
  have g: "matrix run3_start = makeMatrix_loops 3 zero_mem \<and>
     matrix_size run3_start = 3 \<and>
     3 \<le> start_index (size3_block (zero_heap 0)) \<and>
     end_index (size3_block (zero_heap 0)) \<le> 3 * 3 - 3 - 1 \<and>
     no_matrix_fault (faults run3_start)"
    by (simp add: run3_start_def size3_globals_def size3_block_def size3_grid_def
        makeMatrix_loops_3 no_matrix_fault_def)
  note t = neighbour_reads_in_bounds [OF a]
  from t i have "getSuroundingAverage (makeMatrix_loops 3 zero_mem) 3 4 =
      ((cell (makeMatrix_loops 3 zero_mem) (4 - 3) + cell (makeMatrix_loops 3 zero_mem) (4 + 1) +
        cell (makeMatrix_loops 3 zero_mem) (4 + 3) + cell (makeMatrix_loops 3 zero_mem) (4 - 1)) / 4,
       [])"
    by blast
  then have v: "getSuroundingAverage (makeMatrix_loops 3 zero_mem) 3 4 = (1 / 2, [])"
    by (simp add: makeMatrix_loops_3)
  from t g have "\<exists>b' g'. processBlock (size3_block (zero_heap 0)) run3_start = Inr (b', g') \<and>
            no_matrix_fault (faults g')"
    by blast
  with a i v m g show ?thesis by blast
qed

end
